theory Spec2Isabelle
  imports Main
begin

section \<open>Strings, the base width function and the correction table\<close>

text \<open>
  The program (src/index.ts) measures JavaScript strings after splitting them into
  code points with \<^verbatim>\<open>[...text]\<close>. A string is therefore modelled as the list of
  its code points, each a natural number; \<^verbatim>\<open>+\<close> on strings is \<open>@\<close>. (Strings are taken
  to be well-formed UTF-16: with a lone surrogate at the end of one string and another at
  the start of the next, concatenation would merge two code points into one.) Numbers
  that the program uses as widths, counts and indices are modelled as \<open>int\<close>; fractions,
  \<^verbatim>\<open>NaN\<close> and infinities are left out.

  Two things the width model depends on are not fixed by the functions themselves and
  are parameters of every definition below:
  \<^item> \<open>wcw\<close>, the base width function \<^verbatim>\<open>wcwidth\<close> of the third-party package imported at
    line 7, applied by the program to the string of a whole cluster;
  \<^item> \<open>corr\<close>, the table \<^verbatim>\<open>EMOJI_CORRECTIONS\<close>, which \<^verbatim>\<open>loadEmojiConfig\<close> reads from a
    configuration file when one exists and which is \<^verbatim>\<open>DEFAULT_EMOJI_CORRECTIONS\<close> otherwise.
\<close>

type_synonym codepoint = nat
type_synonym ustring = "codepoint list"
type_synonym wcwidth_fn = "ustring \<Rightarrow> int"
type_synonym corrections = "ustring \<rightharpoonup> int"

text \<open>
  \<^verbatim>\<open>DEFAULT_EMOJI_CORRECTIONS\<close> (lines 32-81): the array of entries, keys written as code
  points, and the \<^verbatim>\<open>Map\<close> built from it. No key occurs twice.
\<close>

definition DEFAULT_EMOJI_CORRECTIONS_entries :: "(ustring \<times> int) list" where
  "DEFAULT_EMOJI_CORRECTIONS_entries =
    [([0x0030, 0xFE0F, 0x20E3], 1),
     ([0x0031, 0xFE0F, 0x20E3], 1),
     ([0x0032, 0xFE0F, 0x20E3], 1),
     ([0x0033, 0xFE0F, 0x20E3], 1),
     ([0x0034, 0xFE0F, 0x20E3], 1),
     ([0x0035, 0xFE0F, 0x20E3], 1),
     ([0x0036, 0xFE0F, 0x20E3], 1),
     ([0x0037, 0xFE0F, 0x20E3], 1),
     ([0x0038, 0xFE0F, 0x20E3], 1),
     ([0x0039, 0xFE0F, 0x20E3], 1),
     ([0x0023, 0xFE0F, 0x20E3], 1),
     ([0x002A, 0xFE0F, 0x20E3], 1),
     ([0x2699, 0xFE0F], 1),
     ([0x270F, 0xFE0F], 1),
     ([0x2712, 0xFE0F], 1),
     ([0x2764, 0xFE0F], 1),
     ([0x2600, 0xFE0F], 1),
     ([0x2601, 0xFE0F], 1),
     ([0x2602, 0xFE0F], 1),
     ([0x26A1], 1),
     ([0x2744, 0xFE0F], 1),
     ([0x2603, 0xFE0F], 1),
     ([0x2734, 0xFE0F], 1),
     ([0x2747, 0xFE0F], 1),
     ([0x2049, 0xFE0F], 1),
     ([0x203C, 0xFE0F], 1),
     ([0x2B50], 1),
     ([0x26AA], 1),
     ([0x26AB], 1),
     ([0x2139, 0xFE0F], 1),
     ([0x2709, 0xFE0F], 1),
     ([0x260E, 0xFE0F], 1),
     ([0x23F1, 0xFE0F], 1),
     ([0x23F2, 0xFE0F], 1),
     ([0x2328, 0xFE0F], 1),
     ([0x25B2], 1),
     ([0x25BC], 1),
     ([0x25C0], 1),
     ([0x25B6], 1),
     ([0x25B3], 1),
     ([0x25BD], 1),
     ([0x20A9], 1)]"

definition DEFAULT_EMOJI_CORRECTIONS :: corrections where
  "DEFAULT_EMOJI_CORRECTIONS = map_of DEFAULT_EMOJI_CORRECTIONS_entries"

text \<open>
  Modelled from the spec: the base width function. The program calls \<^verbatim>\<open>wcwidth\<close> of the
  npm package of that name, whose code is not part of the repository. The specification
  (section 4.1) describes it as a per-code-point classification, summed over a string:
  zero-width combining marks count 0, wide and full-width characters count 2, everything
  else counts 1. Control characters count 0, and of the combining marks only the ranges
  that hold U+FE0F, U+20E3 and the common diacritics are listed. The general theorems
  below hold for every base width function; this instance is used only to evaluate the
  program on concrete inputs.
\<close>

definition wcwidth_cp :: "codepoint \<Rightarrow> int" where
  "wcwidth_cp c =
     (if c < 0x20 \<or> (0x7F \<le> c \<and> c < 0xA0) then 0
      else if (0x0300 \<le> c \<and> c \<le> 0x036F) \<or> (0x200B \<le> c \<and> c \<le> 0x200F)
            \<or> (0x20D0 \<le> c \<and> c \<le> 0x20EF) \<or> (0xFE00 \<le> c \<and> c \<le> 0xFE0F) then 0
      else if (0x1100 \<le> c \<and> c \<le> 0x115F) \<or> (0x2E80 \<le> c \<and> c \<le> 0xA4CF \<and> c \<noteq> 0x303F)
            \<or> (0xAC00 \<le> c \<and> c \<le> 0xD7A3) \<or> (0xF900 \<le> c \<and> c \<le> 0xFAFF)
            \<or> (0xFE30 \<le> c \<and> c \<le> 0xFE6F) \<or> (0xFF00 \<le> c \<and> c \<le> 0xFF60)
            \<or> (0xFFE0 \<le> c \<and> c \<le> 0xFFE6) \<or> 0x10000 \<le> c then 2
      else 1)"

definition wcwidth :: wcwidth_fn where
  "wcwidth s = sum_list (map wcwidth_cp s)"

section \<open>Visual width\<close>

text \<open>
  The two look-ahead tests of the loops of \<^verbatim>\<open>getVisualWidth\<close> and
  \<^verbatim>\<open>truncateByVisualWidth\<close>, on the code points that follow position \<open>i\<close>:
  \<^verbatim>\<open>hasVS16 = nextChar && nextChar.codePointAt(0) === 0xfe0f\<close> and
  \<^verbatim>\<open>isKeycap = hasVS16 && thirdChar && thirdChar.codePointAt(0) === 0x20e3\<close>.
  A missing \<^verbatim>\<open>chars[i + 1]\<close> is \<^verbatim>\<open>undefined\<close>, which makes the test false.
\<close>

fun hasVS16 :: "ustring \<Rightarrow> bool" where
  "hasVS16 [] = False"
| "hasVS16 (nextChar # _) = (nextChar = 0xFE0F)"

fun isKeycap :: "ustring \<Rightarrow> bool" where
  "isKeycap (nextChar # thirdChar # _) = (nextChar = 0xFE0F \<and> thirdChar = 0x20E3)"
| "isKeycap _ = False"

text \<open>
  \<^verbatim>\<open>EMOJI_CORRECTIONS.get(k) ?? 1\<close> for a multi-codepoint cluster, and the
  \<^verbatim>\<open>has\<close>/\<^verbatim>\<open>get\<close> pair for a single code point.
\<close>

definition correctionOr1 :: "corrections \<Rightarrow> ustring \<Rightarrow> int" where
  "correctionOr1 corr k = (case corr k of Some v \<Rightarrow> v | None \<Rightarrow> 1)"

definition singleWidth :: "wcwidth_fn \<Rightarrow> corrections \<Rightarrow> codepoint \<Rightarrow> int" where
  "singleWidth wcw corr char =
     (case corr [char] of Some v \<Rightarrow> wcw [char] + v | None \<Rightarrow> wcw [char])"

text \<open>
  The \<^verbatim>\<open>while\<close> loop of \<^verbatim>\<open>getVisualWidth\<close> (lines 154-195). The list argument is
  \<^verbatim>\<open>chars\<close> from index \<open>i\<close> on; the last argument is \<^verbatim>\<open>totalWidth\<close>.
\<close>

fun getVisualWidth_loop :: "wcwidth_fn \<Rightarrow> corrections \<Rightarrow> ustring \<Rightarrow> int \<Rightarrow> int" where
  "getVisualWidth_loop wcw corr [] totalWidth = totalWidth"
| "getVisualWidth_loop wcw corr (char # rest) totalWidth =
     (if isKeycap rest then
        getVisualWidth_loop wcw corr (drop 2 rest)
          (totalWidth + (wcw (char # take 2 rest) + correctionOr1 corr (char # take 2 rest)))
      else if hasVS16 rest then
        getVisualWidth_loop wcw corr (drop 1 rest)
          (totalWidth + (wcw (char # take 1 rest) + correctionOr1 corr (char # take 1 rest)))
      else
        getVisualWidth_loop wcw corr rest (totalWidth + singleWidth wcw corr char))"

definition getVisualWidth :: "wcwidth_fn \<Rightarrow> corrections \<Rightarrow> ustring \<Rightarrow> int" where
  "getVisualWidth wcw corr text = (if text = [] then 0 else getVisualWidth_loop wcw corr text 0)"

text \<open>
  The \<^verbatim>\<open>for\<close> loop of \<^verbatim>\<open>truncateByVisualWidth\<close> (lines 208-251), with \<^verbatim>\<open>result\<close> and
  \<^verbatim>\<open>currentWidth\<close> as the last two arguments; \<^verbatim>\<open>break\<close> returns the result so far.
\<close>

fun truncate_loop :: "wcwidth_fn \<Rightarrow> corrections \<Rightarrow> int \<Rightarrow> ustring \<Rightarrow> ustring \<Rightarrow> int \<Rightarrow> ustring" where
  "truncate_loop wcw corr maxWidth [] result currentWidth = result"
| "truncate_loop wcw corr maxWidth (char # rest) result currentWidth =
     (if isKeycap rest then
        (let charsToAdd = char # take 2 rest;
             charWidth = wcw charsToAdd + correctionOr1 corr charsToAdd
         in if currentWidth + charWidth > maxWidth then result
            else truncate_loop wcw corr maxWidth (drop 2 rest)
                   (result @ charsToAdd) (currentWidth + charWidth))
      else if hasVS16 rest then
        (let charsToAdd = char # take 1 rest;
             charWidth = wcw charsToAdd + correctionOr1 corr charsToAdd
         in if currentWidth + charWidth > maxWidth then result
            else truncate_loop wcw corr maxWidth (drop 1 rest)
                   (result @ charsToAdd) (currentWidth + charWidth))
      else
        (let charsToAdd = [char];
             charWidth = singleWidth wcw corr char
         in if currentWidth + charWidth > maxWidth then result
            else truncate_loop wcw corr maxWidth rest
                   (result @ charsToAdd) (currentWidth + charWidth)))"

definition truncateByVisualWidth :: "wcwidth_fn \<Rightarrow> corrections \<Rightarrow> ustring \<Rightarrow> int \<Rightarrow> ustring" where
  "truncateByVisualWidth wcw corr text maxWidth =
     (if text = [] then [] else truncate_loop wcw corr maxWidth text [] 0)"

section \<open>The segmentation performed by the two loops\<close>

text \<open>
  Both loops cut \<^verbatim>\<open>chars\<close> into the same chunks: \<^verbatim>\<open>keycapEmoji\<close> (three code points),
  \<^verbatim>\<open>vsEmoji\<close> (two) or \<^verbatim>\<open>char\<close> (one), chosen by the same tests in the same order.
  \<open>graphemeClusters\<close> lists these chunks; \<open>clusterWidth\<close> is the amount a loop adds for
  one chunk. Lemma \<open>getVisualWidth_loop_clusters\<close> and lemma \<open>truncate_loop_clusters\<close>
  below show that the loops compute exactly this.
\<close>

fun graphemeClusters :: "ustring \<Rightarrow> ustring list" where
  "graphemeClusters [] = []"
| "graphemeClusters (char # rest) =
     (if isKeycap rest then (char # take 2 rest) # graphemeClusters (drop 2 rest)
      else if hasVS16 rest then (char # take 1 rest) # graphemeClusters (drop 1 rest)
      else [char] # graphemeClusters rest)"

definition clusterWidth :: "wcwidth_fn \<Rightarrow> corrections \<Rightarrow> ustring \<Rightarrow> int" where
  "clusterWidth wcw corr k =
     (case k of [char] \<Rightarrow> singleWidth wcw corr char | _ \<Rightarrow> wcw k + correctionOr1 corr k)"

text \<open>
  The clusters that the truncation loop keeps: it walks the clusters with the running
  width \<open>cur\<close> and stops at the first one that would exceed \<open>maxWidth\<close>.
\<close>

fun fitClusters :: "(ustring \<Rightarrow> int) \<Rightarrow> int \<Rightarrow> int \<Rightarrow> ustring list \<Rightarrow> ustring list" where
  "fitClusters cw maxWidth cur [] = []"
| "fitClusters cw maxWidth cur (k # ks) =
     (if cur + cw k > maxWidth then [] else k # fitClusters cw maxWidth (cur + cw k) ks)"

section \<open>Built-in operations of the language\<close>

text \<open>
  \<^verbatim>\<open>String.prototype.repeat\<close> throws a \<^verbatim>\<open>RangeError\<close> for a negative count. (It also does
  for a result beyond the maximal string length; strings are unbounded here.) This is
  the only exception the rendering functions can raise; a function that calls
  \<^verbatim>\<open>repeat\<close> returns \<open>error + ustring\<close>, with \<open>Inl\<close> for the exception.
\<close>

datatype error = RangeError

definition repeat :: "ustring \<Rightarrow> int \<Rightarrow> error + ustring" where
  "repeat s count =
     (if count < 0 then Inl RangeError else Inr (concat (replicate (nat count) s)))"

text \<open>\<^verbatim>\<open>xs.map(f)\<close> where \<open>f\<close> may throw: the first exception ends the map.\<close>

fun mapE :: "('a \<Rightarrow> error + 'b) \<Rightarrow> 'a list \<Rightarrow> error + 'b list" where
  "mapE f [] = Inr []"
| "mapE f (x # xs) =
     (case f x of
        Inl e \<Rightarrow> Inl e
      | Inr y \<Rightarrow> (case mapE f xs of Inl e \<Rightarrow> Inl e | Inr ys \<Rightarrow> Inr (y # ys)))"

text \<open>\<^verbatim>\<open>parts.join(sep)\<close>.\<close>

fun join :: "ustring \<Rightarrow> ustring list \<Rightarrow> ustring" where
  "join sep [] = []"
| "join sep [x] = x"
| "join sep (x # y # ys) = x @ sep @ join sep (y # ys)"

text \<open>
  \<^verbatim>\<open>s.split("\n")\<close>: the pieces between line feeds (U+000A); the empty string gives
  one empty piece. The first argument is the piece being read.
\<close>

fun split_loop :: "ustring \<Rightarrow> ustring \<Rightarrow> ustring list" where
  "split_loop cur [] = [cur]"
| "split_loop cur (c # cs) =
     (if c = 0x0A then cur # split_loop [] cs else split_loop (cur @ [c]) cs)"

definition splitLines :: "ustring \<Rightarrow> ustring list" where
  "splitLines s = split_loop [] s"

text \<open>
  \<^verbatim>\<open>line.trimEnd()\<close> removes trailing white space and line terminators, as ECMAScript
  defines them.
\<close>

definition isWhiteSpace :: "codepoint \<Rightarrow> bool" where
  "isWhiteSpace c =
     (c = 0x09 \<or> c = 0x0A \<or> c = 0x0B \<or> c = 0x0C \<or> c = 0x0D \<or> c = 0x20 \<or> c = 0xA0
      \<or> c = 0x1680 \<or> (0x2000 \<le> c \<and> c \<le> 0x200A) \<or> c = 0x2028 \<or> c = 0x2029
      \<or> c = 0x202F \<or> c = 0x205F \<or> c = 0x3000 \<or> c = 0xFEFF)"

definition trimEnd :: "ustring \<Rightarrow> ustring" where
  "trimEnd s = rev (dropWhile isWhiteSpace (rev s))"

text \<open>\<^verbatim>\<open>Math.max(...xs, 0)\<close>.\<close>

definition maxWith0 :: "int list \<Rightarrow> int" where
  "maxWith0 xs = fold max xs 0"

text \<open>
  \<^verbatim>\<open>xs[i]\<close> is \<^verbatim>\<open>undefined\<close> outside the array; \<^verbatim>\<open>x || d\<close> replaces \<^verbatim>\<open>undefined\<close>, the
  number 0 and the empty string by \<open>d\<close>.
\<close>

definition arrayGet :: "'a list \<Rightarrow> int \<Rightarrow> 'a option" where
  "arrayGet xs i = (if 0 \<le> i \<and> i < int (length xs) then Some (xs ! nat i) else None)"

definition numberOr :: "int option \<Rightarrow> int \<Rightarrow> int" where
  "numberOr x d = (case x of None \<Rightarrow> d | Some v \<Rightarrow> if v = 0 then d else v)"

definition stringOr :: "ustring option \<Rightarrow> ustring \<Rightarrow> ustring" where
  "stringOr x d = (case x of None \<Rightarrow> d | Some v \<Rightarrow> if v = [] then d else v)"

section \<open>Layout primitives\<close>

datatype align = AlignLeft | AlignRight | AlignCenter

text \<open>\<^verbatim>\<open>padText\<close> (lines 257-283).\<close>

definition padText ::
  "wcwidth_fn \<Rightarrow> corrections \<Rightarrow> ustring \<Rightarrow> int \<Rightarrow> align \<Rightarrow> error + ustring" where
  "padText wcw corr text targetWidth align =
     (let currentWidth = getVisualWidth wcw corr text;
          padding = targetWidth - currentWidth
      in if padding < 0 then
           (let truncated = truncateByVisualWidth wcw corr text targetWidth;
                truncatedWidth = getVisualWidth wcw corr truncated;
                remainingPadding = targetWidth - truncatedWidth
            in case repeat [0x20] (max 0 remainingPadding) of
                 Inl e \<Rightarrow> Inl e
               | Inr fill \<Rightarrow> Inr (truncated @ fill))
         else
           (case align of
              AlignRight \<Rightarrow>
                (case repeat [0x20] padding of
                   Inl e \<Rightarrow> Inl e
                 | Inr fill \<Rightarrow> Inr (fill @ text))
            | AlignCenter \<Rightarrow>
                (let leftPad = padding div 2
                 in case repeat [0x20] leftPad of
                      Inl e \<Rightarrow> Inl e
                    | Inr lfill \<Rightarrow>
                        (case repeat [0x20] (padding - leftPad) of
                           Inl e \<Rightarrow> Inl e
                         | Inr rfill \<Rightarrow> Inr (lfill @ text @ rfill)))
            | AlignLeft \<Rightarrow>
                (case repeat [0x20] padding of
                   Inl e \<Rightarrow> Inl e
                 | Inr fill \<Rightarrow> Inr (text @ fill))))"

text \<open>
  The rows of a box. The border glyphs are written by their code points: U+250C and
  U+2510 (upper corners), U+2514 and U+2518 (lower corners), U+2500 (horizontal line),
  U+2502 (vertical line). \<^verbatim>\<open>createBox\<close> (lines 286-299) and \<^verbatim>\<open>wrapFrame\<close> (lines 353-390)
  build their rows from the same template literals:
  \<^item> \<open>titleRow\<close> (lines 288-291, 375-378): upper left corner, line, space, the title,
    space, \<^verbatim>\<open>Math.max(0, width - 2 - getVisualWidth(title) - 3)\<close> lines, upper right corner;
  \<^item> \<open>contentRow\<close> (lines 294, 385): vertical line, space,
    \<^verbatim>\<open>padText(line, innerWidth, "left")\<close>, space, vertical line;
  \<^item> \<open>bottomRow\<close> (lines 297, 388): lower left corner, \<^verbatim>\<open>width - 2\<close> lines, lower right
    corner.
  Each row but the last is followed by a line feed. \<open>appendRows\<close> is the loop over the
  content lines, appending to \<^verbatim>\<open>result\<close>.
\<close>

definition titleRow :: "wcwidth_fn \<Rightarrow> corrections \<Rightarrow> ustring \<Rightarrow> int \<Rightarrow> error + ustring" where
  "titleRow wcw corr title width =
     (case repeat [0x2500] (max 0 (width - 2 - getVisualWidth wcw corr title - 3)) of
        Inl e \<Rightarrow> Inl e
      | Inr border \<Rightarrow> Inr ([0x250C, 0x2500, 0x20] @ title @ [0x20] @ border @ [0x2510]))"

definition contentRow :: "wcwidth_fn \<Rightarrow> corrections \<Rightarrow> int \<Rightarrow> ustring \<Rightarrow> error + ustring" where
  "contentRow wcw corr innerWidth line =
     (case padText wcw corr line innerWidth AlignLeft of
        Inl e \<Rightarrow> Inl e
      | Inr padded \<Rightarrow> Inr ([0x2502, 0x20] @ padded @ [0x20, 0x2502]))"

definition bottomRow :: "int \<Rightarrow> error + ustring" where
  "bottomRow width =
     (case repeat [0x2500] (width - 2) of
        Inl e \<Rightarrow> Inl e
      | Inr border \<Rightarrow> Inr ([0x2514] @ border @ [0x2518]))"

fun appendRows ::
  "wcwidth_fn \<Rightarrow> corrections \<Rightarrow> int \<Rightarrow> ustring list \<Rightarrow> ustring \<Rightarrow> error + ustring" where
  "appendRows wcw corr innerWidth [] result = Inr result"
| "appendRows wcw corr innerWidth (line # lines) result =
     (case contentRow wcw corr innerWidth line of
        Inl e \<Rightarrow> Inl e
      | Inr row \<Rightarrow> appendRows wcw corr innerWidth lines (result @ row @ [0x0A]))"

text \<open>\<^verbatim>\<open>createBox\<close> (lines 286-299).\<close>

definition createBox ::
  "wcwidth_fn \<Rightarrow> corrections \<Rightarrow> ustring \<Rightarrow> ustring list \<Rightarrow> int \<Rightarrow> error + ustring" where
  "createBox wcw corr title lines width =
     (let innerWidth = width - 4
      in case titleRow wcw corr title width of
           Inl e \<Rightarrow> Inl e
         | Inr topRow \<Rightarrow>
             (case appendRows wcw corr innerWidth lines (topRow @ [0x0A]) of
                Inl e \<Rightarrow> Inl e
              | Inr result \<Rightarrow>
                  (case bottomRow width of
                     Inl e \<Rightarrow> Inl e
                   | Inr bottom \<Rightarrow> Inr (result @ bottom))))"

text \<open>
  \<^verbatim>\<open>createTableRow\<close> (lines 302-307). \<^verbatim>\<open>columns.map((col, i) => ...)\<close> pairs every
  column with its index.
\<close>

definition createTableRow ::
  "wcwidth_fn \<Rightarrow> corrections \<Rightarrow> ustring list \<Rightarrow> int list \<Rightarrow> error + ustring" where
  "createTableRow wcw corr columns widths =
     (case mapE (\<lambda>(col, i). padText wcw corr col (numberOr (arrayGet widths (int i)) 10) AlignLeft)
             (zip columns [0..<length columns]) of
        Inl e \<Rightarrow> Inl e
      | Inr paddedCols \<Rightarrow>
          Inr ([0x2502, 0x20] @ join [0x20, 0x2502, 0x20] paddedCols @ [0x20, 0x2502]))"

text \<open>\<^verbatim>\<open>createTableSeparator\<close> (lines 310-322).\<close>

datatype style = StyleTop | StyleMiddle | StyleBottom

record borderChars =
  left :: ustring
  mid :: ustring
  right :: ustring
  line :: ustring

definition chars :: "style \<Rightarrow> borderChars" where
  "chars style =
     (case style of
        StyleTop \<Rightarrow> \<lparr>left = [0x250C], mid = [0x252C], right = [0x2510], line = [0x2500]\<rparr>
      | StyleMiddle \<Rightarrow> \<lparr>left = [0x251C], mid = [0x253C], right = [0x2524], line = [0x2500]\<rparr>
      | StyleBottom \<Rightarrow> \<lparr>left = [0x2514], mid = [0x2534], right = [0x2518], line = [0x2500]\<rparr>)"

definition createTableSeparator :: "int list \<Rightarrow> style \<Rightarrow> error + ustring" where
  "createTableSeparator widths style =
     (let c = chars style
      in case mapE (\<lambda>w. repeat (line c) (w + 2)) widths of
           Inl e \<Rightarrow> Inl e
         | Inr segments \<Rightarrow> Inr (left c @ join (mid c) segments @ right c))"

text \<open>
  \<^verbatim>\<open>combineHorizontal\<close> (lines 325-350). \<open>rowParts\<close> is the inner loop over \<open>j\<close>, which
  reads \<^verbatim>\<open>boxLines[j]\<close> and \<^verbatim>\<open>boxWidths[j]\<close> for the same \<open>j\<close>; the two arrays have the
  same length, so the loop runs over their pairs.
\<close>

definition rowParts ::
  "wcwidth_fn \<Rightarrow> corrections \<Rightarrow> ustring list list \<Rightarrow> int list \<Rightarrow> int \<Rightarrow> error + ustring list" where
  "rowParts wcw corr boxLines boxWidths i =
     mapE (\<lambda>(lines, w). padText wcw corr (stringOr (arrayGet lines i) []) w AlignLeft)
       (zip boxLines boxWidths)"

definition combineHorizontal ::
  "wcwidth_fn \<Rightarrow> corrections \<Rightarrow> ustring list \<Rightarrow> int \<Rightarrow> error + ustring" where
  "combineHorizontal wcw corr boxes gap =
     (let boxLines = map (\<lambda>box. map trimEnd (splitLines box)) boxes;
          maxLines = maxWith0 (map (\<lambda>lines. int (length lines)) boxLines);
          boxWidths = map (\<lambda>lines. maxWith0 (map (getVisualWidth wcw corr) lines)) boxLines
      in case repeat [0x20] gap of
           Inl e \<Rightarrow> Inl e
         | Inr gapStr \<Rightarrow>
             (case mapE (\<lambda>i. case rowParts wcw corr boxLines boxWidths i of
                                Inl e \<Rightarrow> Inl e
                              | Inr parts \<Rightarrow> Inr (join gapStr parts))
                     (map int [0..<nat maxLines]) of
                Inl e \<Rightarrow> Inl e
              | Inr result \<Rightarrow> Inr (join [0x0A] result)))"

text \<open>
  \<^verbatim>\<open>wrapFrame\<close> (lines 353-390). The optional \<^verbatim>\<open>title\<close> is tested with \<^verbatim>\<open>if (title)\<close>,
  which is false for a missing title and for the empty string; without a title the top
  row is the upper left corner, \<^verbatim>\<open>actualWidth - 2\<close> lines and the upper right corner
  (line 380).
\<close>

definition wrapFrame ::
  "wcwidth_fn \<Rightarrow> corrections \<Rightarrow> ustring \<Rightarrow> int \<Rightarrow> ustring option \<Rightarrow> error + ustring" where
  "wrapFrame wcw corr content width title =
     (let lines = splitLines content;
          trimmedLines = map trimEnd lines;
          maxContentWidth = maxWith0 (map (getVisualWidth wcw corr) trimmedLines);
          minRequiredWidth = maxContentWidth + 4;
          actualWidth = max width minRequiredWidth;
          innerWidth = actualWidth - 4
      in case (if stringOr title [] \<noteq> [] then
                 titleRow wcw corr (stringOr title []) actualWidth
               else
                 (case repeat [0x2500] (actualWidth - 2) of
                    Inl e \<Rightarrow> Inl e
                  | Inr border \<Rightarrow> Inr ([0x250C] @ border @ [0x2510]))) of
           Inl e \<Rightarrow> Inl e
         | Inr topRow \<Rightarrow>
             (case appendRows wcw corr innerWidth trimmedLines (topRow @ [0x0A]) of
                Inl e \<Rightarrow> Inl e
              | Inr result \<Rightarrow>
                  (case bottomRow actualWidth of
                     Inl e \<Rightarrow> Inl e
                   | Inr bottom \<Rightarrow> Inr (result @ bottom))))"

section \<open>Batch rendering\<close>

text \<open>
  The tagged union \<^verbatim>\<open>UIComponent\<close> (lines 396-447); an optional field is an \<open>option\<close>.
  The constructors carry the fields in the order of the interfaces. The union is closed:
  the \<^verbatim>\<open>switch\<close> of \<^verbatim>\<open>batchRender\<close> has one case per variant and no default.
\<close>

datatype UIComponent =
    PadTextComponent ustring int "align option"
  | BoxComponent ustring "ustring list" "int option"
  | TableRowComponent "ustring list" "int list"
  | TableSeparatorComponent "int list" "style option"
  | CombineHorizontalComponent "int list" "int option"
  | WrapFrameComponent int int "ustring option"
  | RawTextComponent ustring

text \<open>The body of the \<^verbatim>\<open>switch\<close> of \<^verbatim>\<open>batchRender\<close> (lines 454-486): the string pushed.\<close>

fun renderComponent ::
  "wcwidth_fn \<Rightarrow> corrections \<Rightarrow> ustring list \<Rightarrow> UIComponent \<Rightarrow> error + ustring" where
  "renderComponent wcw corr results (PadTextComponent text width align) =
     padText wcw corr text width (case align of None \<Rightarrow> AlignLeft | Some a \<Rightarrow> a)"
| "renderComponent wcw corr results (BoxComponent title lines width) =
     createBox wcw corr title lines (numberOr width 40)"
| "renderComponent wcw corr results (TableRowComponent columns widths) =
     createTableRow wcw corr columns widths"
| "renderComponent wcw corr results (TableSeparatorComponent widths style) =
     createTableSeparator widths (case style of None \<Rightarrow> StyleMiddle | Some s \<Rightarrow> s)"
| "renderComponent wcw corr results (CombineHorizontalComponent items gap) =
     combineHorizontal wcw corr (map (\<lambda>idx. stringOr (arrayGet results idx) []) items)
       (numberOr gap 2)"
| "renderComponent wcw corr results (WrapFrameComponent contentIndex width title) =
     wrapFrame wcw corr (stringOr (arrayGet results contentIndex) []) width title"
| "renderComponent wcw corr results (RawTextComponent text) = Inr text"

text \<open>The \<^verbatim>\<open>for\<close> loop of \<^verbatim>\<open>batchRender\<close>; the last argument is \<^verbatim>\<open>results\<close>.\<close>

fun batchRender_loop ::
  "wcwidth_fn \<Rightarrow> corrections \<Rightarrow> UIComponent list \<Rightarrow> ustring list \<Rightarrow> error + ustring list" where
  "batchRender_loop wcw corr [] results = Inr results"
| "batchRender_loop wcw corr (component # components) results =
     (case renderComponent wcw corr results component of
        Inl e \<Rightarrow> Inl e
      | Inr r \<Rightarrow> batchRender_loop wcw corr components (results @ [r]))"

definition batchRender ::
  "wcwidth_fn \<Rightarrow> corrections \<Rightarrow> UIComponent list \<Rightarrow> error + ustring list" where
  "batchRender wcw corr components = batchRender_loop wcw corr components []"

section \<open>Predicates used in the statements\<close>

text \<open>
  The layout functions pad with spaces and draw with single-line border glyphs, and their
  column arithmetic counts each of them as one column. This is a property of the base
  width function and the table in use: a code point is \<^emph>\<open>plain\<close> when it is measured,
  as a cluster of its own, as one column.
\<close>

definition plain :: "wcwidth_fn \<Rightarrow> corrections \<Rightarrow> codepoint \<Rightarrow> bool" where
  "plain wcw corr c = (singleWidth wcw corr c = 1)"

definition boxGlyphsPlain :: "wcwidth_fn \<Rightarrow> corrections \<Rightarrow> bool" where
  "boxGlyphsPlain wcw corr =
     list_all (plain wcw corr) [0x20, 0x2500, 0x2502, 0x250C, 0x2510, 0x2514, 0x2518]"

text \<open>
  An instruction of a batch requests no negative repeat count: the box is at least two
  columns wide (after the default 40), every separator column is at least -2 wide, the
  gap (after the default 2) is not negative. The indices it refers to play no part.
\<close>

fun countsValid :: "UIComponent \<Rightarrow> bool" where
  "countsValid (BoxComponent title lines width) = (2 \<le> numberOr width 40)"
| "countsValid (TableSeparatorComponent widths style) = list_all (\<lambda>w. - 2 \<le> w) widths"
| "countsValid (CombineHorizontalComponent items gap) = (0 \<le> numberOr gap 2)"
| "countsValid _ = True"

text \<open>
  The lines of one input block of \<^verbatim>\<open>combineHorizontal\<close> after \<^verbatim>\<open>trimEnd\<close> (an element of
  \<^verbatim>\<open>boxLines\<close>) and the block's own maximal trimmed visual width (the matching element
  of \<^verbatim>\<open>boxWidths\<close>).
\<close>

definition blockLines :: "ustring \<Rightarrow> ustring list" where
  "blockLines box = map trimEnd (splitLines box)"

definition blockWidth :: "wcwidth_fn \<Rightarrow> corrections \<Rightarrow> ustring \<Rightarrow> int" where
  "blockWidth wcw corr box = maxWith0 (map (getVisualWidth wcw corr) (blockLines box))"

section \<open>The loops in terms of clusters\<close>

lemma getVisualWidth_loop_clusters:
  "getVisualWidth_loop wcw corr s acc = acc + sum_list (map (clusterWidth wcw corr) (graphemeClusters s))"
proof (induction wcw corr s acc rule: getVisualWidth_loop.induct)
  case (1 wcw corr totalWidth)
  show ?case by simp
next
  case (2 wcw corr char rest totalWidth)
  show ?case
  proof (cases "isKeycap rest")
    case True
    then obtain r where "rest = 0xFE0F # 0x20E3 # r"
      by (cases rest rule: isKeycap.cases) auto
    with 2 True show ?thesis by (simp add: clusterWidth_def)
  next
    case nk: False
    show ?thesis
    proof (cases "hasVS16 rest")
      case True
      then obtain r where "rest = 0xFE0F # r" by (cases rest) auto
      with 2 nk True show ?thesis by (simp add: clusterWidth_def)
    next
      case False
      with 2 nk show ?thesis by (simp add: clusterWidth_def)
    qed
  qed
qed

lemma getVisualWidth_clusters:
  "getVisualWidth wcw corr s = sum_list (map (clusterWidth wcw corr) (graphemeClusters s))"
  by (simp add: getVisualWidth_def getVisualWidth_loop_clusters)

lemma truncate_loop_clusters:
  "truncate_loop wcw corr m s res cur =
     res @ concat (fitClusters (clusterWidth wcw corr) m cur (graphemeClusters s))"
proof (induction wcw corr m s res cur rule: truncate_loop.induct)
  case (1 wcw corr maxWidth result currentWidth)
  show ?case by simp
next
  case (2 wcw corr maxWidth char rest result currentWidth)
  show ?case
  proof (cases "isKeycap rest")
    case True
    then obtain r where "rest = 0xFE0F # 0x20E3 # r"
      by (cases rest rule: isKeycap.cases) auto
    with 2 True show ?thesis by (simp add: clusterWidth_def Let_def)
  next
    case nk: False
    show ?thesis
    proof (cases "hasVS16 rest")
      case True
      then obtain r where "rest = 0xFE0F # r" by (cases rest) auto
      with 2 nk True show ?thesis by (simp add: clusterWidth_def Let_def)
    next
      case False
      with 2 nk show ?thesis by (simp add: clusterWidth_def Let_def)
    qed
  qed
qed

lemma truncateByVisualWidth_clusters:
  "truncateByVisualWidth wcw corr s m =
     concat (fitClusters (clusterWidth wcw corr) m 0 (graphemeClusters s))"
  by (simp add: truncateByVisualWidth_def truncate_loop_clusters)

lemma fitClusters_take: "\<exists>n. fitClusters cw m cur ks = take n ks"
proof (induction ks arbitrary: cur)
  case Nil show ?case by simp
next
  case (Cons k ks)
  show ?case
  proof (cases "cur + cw k > m")
    case True then show ?thesis by (intro exI[of _ 0]) simp
  next
    case False
    from Cons[of "cur + cw k"] obtain n where "fitClusters cw m (cur + cw k) ks = take n ks" ..
    with False show ?thesis by (intro exI[of _ "Suc n"]) simp
  qed
qed

lemma fitClusters_width:
  "fitClusters cw m cur ks = [] \<or> cur + sum_list (map cw (fitClusters cw m cur ks)) \<le> m"
proof (induction ks arbitrary: cur)
  case Nil show ?case by simp
next
  case (Cons k ks)
  show ?case
  proof (cases "cur + cw k > m")
    case True then show ?thesis by simp
  next
    case False
    from Cons[of "cur + cw k"] False show ?thesis by (auto simp: add.assoc)
  qed
qed

lemma concat_graphemeClusters: "concat (graphemeClusters s) = s"
proof (induction s rule: graphemeClusters.induct)
  case 1 show ?case by simp
next
  case (2 char rest)
  then show ?case by (cases "isKeycap rest"; cases "hasVS16 rest") simp_all
qed

lemma isKeycap_append: "isKeycap xs \<Longrightarrow> isKeycap (xs @ ys)"
  by (cases xs rule: isKeycap.cases) auto

lemma isKeycap_hasVS16: "isKeycap xs \<Longrightarrow> hasVS16 xs"
  by (cases xs rule: isKeycap.cases) auto

lemma hasVS16_prefix: "hasVS16 xs \<Longrightarrow> xs @ ys = zs \<Longrightarrow> hasVS16 zs"
  by (cases xs) auto

text \<open>A prefix of whole clusters is segmented into the same clusters again.\<close>

lemma graphemeClusters_concat_take:
  "graphemeClusters (concat (take n (graphemeClusters s))) = take n (graphemeClusters s)"
proof (induction s arbitrary: n rule: graphemeClusters.induct)
  case 1 show ?case by simp
next
  case (2 char rest)
  show ?case
  proof (cases n)
    case 0 then show ?thesis by simp
  next
    case (Suc m)
    show ?thesis
    proof (cases "isKeycap rest")
      case True
      then obtain r where r: "rest = 0xFE0F # 0x20E3 # r"
        by (cases rest rule: isKeycap.cases) auto
      from 2(1)[OF True, of m] True r Suc show ?thesis by simp
    next
      case nk: False
      show ?thesis
      proof (cases "hasVS16 rest")
        case True
        then obtain r where r: "rest = 0xFE0F # r" by (cases rest) auto
        let ?X = "concat (take m (graphemeClusters r))"
        have "\<exists>ys. ?X @ ys = r"
          by (metis append_take_drop_id concat_append concat_graphemeClusters)
        then obtain ys where ys: "?X @ ys = r" ..
        have "\<not> isKeycap (0xFE0F # ?X)"
        proof
          assume "isKeycap (0xFE0F # ?X)"
          then have "isKeycap ((0xFE0F # ?X) @ ys)" by (rule isKeycap_append)
          with ys r nk show False by simp
        qed
        with 2(2)[OF nk True, of m] nk True r Suc show ?thesis by simp
      next
        case False
        let ?X = "concat (take m (graphemeClusters rest))"
        have "\<exists>ys. ?X @ ys = rest"
          by (metis append_take_drop_id concat_append concat_graphemeClusters)
        then obtain ys where ys: "?X @ ys = rest" ..
        have nv: "\<not> hasVS16 ?X" using hasVS16_prefix[OF _ ys] False by blast
        then have "\<not> isKeycap ?X" using isKeycap_hasVS16 by blast
        with 2(3)[OF nk False, of m] nk False nv Suc show ?thesis by simp
      qed
    qed
  qed
qed

lemma truncate_width_le:
  assumes "0 \<le> m"
  shows "getVisualWidth wcw corr (truncateByVisualWidth wcw corr s m) \<le> m"
proof -
  let ?f = "fitClusters (clusterWidth wcw corr) m 0 (graphemeClusters s)"
  obtain n where n: "?f = take n (graphemeClusters s)"
    using fitClusters_take by blast
  have "graphemeClusters (concat ?f) = ?f"
    unfolding n by (rule graphemeClusters_concat_take)
  then have w: "getVisualWidth wcw corr (truncateByVisualWidth wcw corr s m)
      = sum_list (map (clusterWidth wcw corr) ?f)"
    by (simp add: getVisualWidth_clusters truncateByVisualWidth_clusters)
  from fitClusters_width[of "clusterWidth wcw corr" m 0 "graphemeClusters s"] assms
  show ?thesis unfolding w by auto
qed

section \<open>Width of concatenations\<close>

lemma repeat_single: "0 \<le> n \<Longrightarrow> repeat [c] n = Inr (replicate (nat n) c)"
  by (simp add: repeat_def)

lemma graphemeClusters_append:
  assumes "\<not> hasVS16 b" and "a = [] \<or> last a \<noteq> 0xFE0F \<or> b = [] \<or> hd b \<noteq> 0x20E3"
  shows "graphemeClusters (a @ b) = graphemeClusters a @ graphemeClusters b"
  using assms
proof (induction a rule: graphemeClusters.induct)
  case 1 show ?case by simp
next
  case (2 char rest)
  show ?case
  proof (cases "isKeycap rest")
    case True
    then obtain r where r: "rest = 0xFE0F # 0x20E3 # r"
      by (cases rest rule: isKeycap.cases) auto
    have "r = [] \<or> last r \<noteq> 0xFE0F \<or> b = [] \<or> hd b \<noteq> 0x20E3"
      using 2(5) r by (cases "r = []") auto
    with 2(1)[OF True] 2(4) r show ?thesis by simp
  next
    case nk: False
    show ?thesis
    proof (cases "hasVS16 rest")
      case True
      then obtain r where r: "rest = 0xFE0F # r" by (cases rest) auto
      have c: "r = [] \<or> last r \<noteq> 0xFE0F \<or> b = [] \<or> hd b \<noteq> 0x20E3"
        using 2(5) r by (cases "r = []") auto
      have "\<not> isKeycap (0xFE0F # r @ b)"
      proof (cases r)
        case Nil
        with 2(5) r have "b = [] \<or> hd b \<noteq> 0x20E3" by simp
        with Nil show ?thesis by (cases b) auto
      next
        case (Cons x xs)
        with nk r show ?thesis by simp
      qed
      with 2(2)[OF nk True] 2(4) c nk True r show ?thesis by simp
    next
      case False
      have c: "rest = [] \<or> last rest \<noteq> 0xFE0F \<or> b = [] \<or> hd b \<noteq> 0x20E3"
        using 2(5) by (cases "rest = []") auto
      have nv: "\<not> hasVS16 (rest @ b)"
        using False 2(4) by (cases rest) auto
      then have "\<not> isKeycap (rest @ b)" using isKeycap_hasVS16 by blast
      with 2(3)[OF nk False] 2(4) c nk False nv show ?thesis by simp
    qed
  qed
qed

lemma getVisualWidth_append:
  assumes "\<not> hasVS16 b" and "a = [] \<or> last a \<noteq> 0xFE0F \<or> b = [] \<or> hd b \<noteq> 0x20E3"
  shows "getVisualWidth wcw corr (a @ b) = getVisualWidth wcw corr a + getVisualWidth wcw corr b"
  by (simp add: getVisualWidth_clusters graphemeClusters_append[OF assms])

lemma graphemeClusters_spaces: "graphemeClusters (replicate n (0x20::nat)) = replicate n [0x20]"
proof (induction n)
  case 0 show ?case by simp
next
  case (Suc n)
  have "\<not> hasVS16 (replicate n (0x20::nat))" by (cases n) auto
  moreover then have "\<not> isKeycap (replicate n (0x20::nat))" using isKeycap_hasVS16 by blast
  ultimately show ?case using Suc by simp
qed

lemma getVisualWidth_spaces:
  "getVisualWidth wcw corr (replicate n (0x20::nat)) = int n * singleWidth wcw corr 0x20"
  by (simp add: getVisualWidth_clusters graphemeClusters_spaces clusterWidth_def sum_list_replicate)

lemma getVisualWidth_append_spaces:
  "getVisualWidth wcw corr (a @ replicate n (0x20::nat))
     = getVisualWidth wcw corr a + int n * singleWidth wcw corr 0x20"
proof -
  have "\<not> hasVS16 (replicate n (0x20::nat))" by (cases n) auto
  moreover have "a = [] \<or> last a \<noteq> 0xFE0F \<or> replicate n (0x20::nat) = [] \<or> hd (replicate n (0x20::nat)) \<noteq> 0x20E3"
    by (cases n) auto
  ultimately show ?thesis by (simp add: getVisualWidth_append getVisualWidth_spaces)
qed

lemma getVisualWidth_spaces_append:
  assumes "\<not> hasVS16 t"
  shows "getVisualWidth wcw corr (replicate n (0x20::nat) @ t)
     = int n * singleWidth wcw corr 0x20 + getVisualWidth wcw corr t"
proof -
  have "replicate n (0x20::nat) = [] \<or> last (replicate n (0x20::nat)) \<noteq> 0xFE0F \<or> t = [] \<or> hd t \<noteq> 0x20E3"
    by (cases n) auto
  with assms show ?thesis by (simp add: getVisualWidth_append getVisualWidth_spaces)
qed

section \<open>Padding\<close>

lemma truncate_width_cases:
  "truncateByVisualWidth wcw corr s m = []
   \<or> getVisualWidth wcw corr (truncateByVisualWidth wcw corr s m) \<le> m"
proof -
  let ?f = "fitClusters (clusterWidth wcw corr) m 0 (graphemeClusters s)"
  obtain n where n: "?f = take n (graphemeClusters s)"
    using fitClusters_take by blast
  have "graphemeClusters (concat ?f) = ?f"
    unfolding n by (rule graphemeClusters_concat_take)
  then have w: "getVisualWidth wcw corr (truncateByVisualWidth wcw corr s m)
      = sum_list (map (clusterWidth wcw corr) ?f)"
    by (simp add: getVisualWidth_clusters truncateByVisualWidth_clusters)
  from fitClusters_width[of "clusterWidth wcw corr" m 0 "graphemeClusters s"]
  show ?thesis unfolding w by (auto simp: truncateByVisualWidth_clusters)
qed

lemma getVisualWidth_Nil: "getVisualWidth wcw corr [] = 0"
  by (simp add: getVisualWidth_def)

lemma padText_left_eq:
  "padText wcw corr t w AlignLeft =
     Inr (if w - getVisualWidth wcw corr t < 0
          then truncateByVisualWidth wcw corr t w
               @ replicate (nat (w - getVisualWidth wcw corr (truncateByVisualWidth wcw corr t w))) 0x20
          else t @ replicate (nat (w - getVisualWidth wcw corr t)) 0x20)"
  by (simp add: padText_def Let_def repeat_single max_def)

lemma padText_right_eq:
  "padText wcw corr t w AlignRight =
     Inr (if w - getVisualWidth wcw corr t < 0
          then truncateByVisualWidth wcw corr t w
               @ replicate (nat (w - getVisualWidth wcw corr (truncateByVisualWidth wcw corr t w))) 0x20
          else replicate (nat (w - getVisualWidth wcw corr t)) 0x20 @ t)"
  by (simp add: padText_def Let_def repeat_single max_def)

lemma padText_center_eq:
  "padText wcw corr t w AlignCenter =
     Inr (if w - getVisualWidth wcw corr t < 0
          then truncateByVisualWidth wcw corr t w
               @ replicate (nat (w - getVisualWidth wcw corr (truncateByVisualWidth wcw corr t w))) 0x20
          else replicate (nat ((w - getVisualWidth wcw corr t) div 2)) 0x20 @ t
               @ replicate (nat ((w - getVisualWidth wcw corr t) - (w - getVisualWidth wcw corr t) div 2)) 0x20)"
proof -
  have "0 \<le> p \<Longrightarrow> 0 \<le> p div 2 \<and> 0 \<le> p - p div 2" for p :: int by presburger
  then show ?thesis
    by (simp add: padText_def Let_def repeat_single max_def)
qed

lemma padText_left_result:
  assumes sp: "plain wcw corr 0x20"
  shows "\<exists>p. padText wcw corr t w AlignLeft = Inr p
             \<and> (getVisualWidth wcw corr p = w \<or> (p = [] \<and> w < 0))"
proof (cases "w - getVisualWidth wcw corr t < 0")
  case False
  then show ?thesis
    by (simp add: padText_left_eq getVisualWidth_append_spaces sp[unfolded plain_def])
next
  case True
  let ?T = "truncateByVisualWidth wcw corr t w"
  from truncate_width_cases[of wcw corr t w]
  show ?thesis
  proof
    assume e: "?T = []"
    show ?thesis
    proof (cases "w < 0")
      case True
      with \<open>w - getVisualWidth wcw corr t < 0\<close> e show ?thesis
        by (simp add: padText_left_eq getVisualWidth_Nil)
    next
      case False
      with \<open>w - getVisualWidth wcw corr t < 0\<close> e show ?thesis
        by (simp add: padText_left_eq getVisualWidth_Nil getVisualWidth_spaces sp[unfolded plain_def])
    qed
  next
    assume "getVisualWidth wcw corr ?T \<le> w"
    with True show ?thesis
      by (simp add: padText_left_eq getVisualWidth_append_spaces sp[unfolded plain_def])
  qed
qed

lemma padText_left_width:
  assumes "plain wcw corr 0x20" and "0 \<le> w"
  shows "\<exists>p. padText wcw corr t w AlignLeft = Inr p \<and> getVisualWidth wcw corr p = w"
  using padText_left_result[OF assms(1), of t w] assms(2) by auto

section \<open>The modelled environment\<close>

lemma wcwidth_cp_nonneg: "0 \<le> wcwidth_cp c"
  by (simp add: wcwidth_cp_def)

lemma wcwidth_nonneg: "0 \<le> wcwidth k"
  unfolding wcwidth_def by (rule sum_list_nonneg) (auto simp: wcwidth_cp_nonneg)

lemma map_of_value_in: "map_of xs k = Some v \<Longrightarrow> v \<in> snd ` set xs"
  by (drule map_of_SomeD) force

lemma default_entries_values: "snd ` set DEFAULT_EMOJI_CORRECTIONS_entries = {1}"
  by (simp add: DEFAULT_EMOJI_CORRECTIONS_entries_def)

lemma default_keys_distinct: "distinct (map fst DEFAULT_EMOJI_CORRECTIONS_entries)"
  by (simp add: DEFAULT_EMOJI_CORRECTIONS_entries_def)

lemma default_correction_value: "DEFAULT_EMOJI_CORRECTIONS k = Some v \<Longrightarrow> v = 1"
  unfolding DEFAULT_EMOJI_CORRECTIONS_def
  using map_of_value_in[of DEFAULT_EMOJI_CORRECTIONS_entries k v] default_entries_values by simp

lemma default_space_plain: "plain wcwidth DEFAULT_EMOJI_CORRECTIONS 0x20"
  by (simp add: plain_def singleWidth_def DEFAULT_EMOJI_CORRECTIONS_def DEFAULT_EMOJI_CORRECTIONS_entries_def
        wcwidth_def wcwidth_cp_def)

section \<open>Position of a cluster boundary\<close>


lemma cluster_sum_cons:
  assumes "\<not> hasVS16 post"
  shows "graphemeClusters (c # post) = [c] # graphemeClusters post"
  using assms isKeycap_hasVS16 by auto

section \<open>Functions that cannot fail\<close>

lemma padText_Inr:
  "padText wcw corr t w a = Inr (projr (padText wcw corr t w a))"
  by (cases a) (simp_all add: padText_left_eq padText_right_eq padText_center_eq)

lemma mapE_Inr:
  "(\<And>x. x \<in> set xs \<Longrightarrow> f x = Inr (g x)) \<Longrightarrow> mapE f xs = Inr (map g xs)"
  by (induction xs) auto

lemma mapE_nth: "mapE f xs = Inr ys \<Longrightarrow> i < length xs \<Longrightarrow> f (xs ! i) = Inr (ys ! i)"
proof (induction xs arbitrary: ys i)
  case Nil then show ?case by simp
next
  case (Cons x xs)
  then show ?case by (cases i) (auto split: sum.splits)
qed

lemma numberOr_arrayGet:
  "numberOr (arrayGet ws (int i)) d = (if i < length ws \<and> ws ! i \<noteq> 0 then ws ! i else d)"
  by (simp add: numberOr_def arrayGet_def)

section \<open>Rows of a box\<close>

lemma getVisualWidth_Cons:
  assumes "\<not> hasVS16 rest"
  shows "getVisualWidth wcw corr (c # rest)
           = singleWidth wcw corr c + getVisualWidth wcw corr rest"
  unfolding getVisualWidth_clusters cluster_sum_cons[OF assms]
  by (simp add: clusterWidth_def)


lemma graphemeClusters_replicate:
  "c \<noteq> 0xFE0F \<Longrightarrow> graphemeClusters (replicate n c) = replicate n [c]"
proof (induction n)
  case 0 show ?case by simp
next
  case (Suc n)
  then have "\<not> hasVS16 (replicate n c)" by (cases n) auto
  then have "graphemeClusters (c # replicate n c) = [c] # graphemeClusters (replicate n c)"
    by (rule cluster_sum_cons)
  with Suc show ?case by (simp del: graphemeClusters.simps)
qed

lemma getVisualWidth_replicate:
  "c \<noteq> 0xFE0F \<Longrightarrow> getVisualWidth wcw corr (replicate n c) = int n * singleWidth wcw corr c"
  by (simp add: getVisualWidth_clusters graphemeClusters_replicate clusterWidth_def
        sum_list_replicate)

lemma truncate_prefix: "\<exists>ys. truncateByVisualWidth wcw corr t w @ ys = t"
proof -
  obtain n where "fitClusters (clusterWidth wcw corr) w 0 (graphemeClusters t)
      = take n (graphemeClusters t)"
    using fitClusters_take by blast
  then have "truncateByVisualWidth wcw corr t w @ concat (drop n (graphemeClusters t)) = t"
    by (simp add: truncateByVisualWidth_clusters flip: concat_append)
       (simp add: concat_graphemeClusters)
  then show ?thesis ..
qed


lemma titleRow_eq:
  "titleRow wcw corr title width =
     Inr ([0x250C, 0x2500, 0x20] @ title @ [0x20]
          @ replicate (nat (width - 2 - getVisualWidth wcw corr title - 3)) 0x2500 @ [0x2510])"
  by (simp add: titleRow_def repeat_single max_def)

lemma bottomRow_eq:
  "2 \<le> width \<Longrightarrow>
     bottomRow width = Inr ([0x2514] @ replicate (nat (width - 2)) 0x2500 @ [0x2518])"
  by (simp add: bottomRow_def repeat_single)

lemma bottomRow_RangeError: "width < 2 \<Longrightarrow> bottomRow width = Inl RangeError"
  by (simp add: bottomRow_def repeat_def)

lemma contentRow_eq:
  "contentRow wcw corr innerWidth ln =
     Inr ([0x2502, 0x20] @ projr (padText wcw corr ln innerWidth AlignLeft) @ [0x20, 0x2502])"
  by (simp add: contentRow_def padText_left_eq)

lemma appendRows_eq:
  "appendRows wcw corr innerWidth lines result =
     Inr (result @ concat (map (\<lambda>l. projr (contentRow wcw corr innerWidth l) @ [0x0A]) lines))"
  by (induction lines arbitrary: result) (simp_all add: contentRow_eq)


lemma boxGlyphsPlainD:
  assumes "boxGlyphsPlain wcw corr"
  shows "singleWidth wcw corr 0x20 = 1" "singleWidth wcw corr 0x2500 = 1"
    "singleWidth wcw corr 0x2502 = 1" "singleWidth wcw corr 0x250C = 1"
    "singleWidth wcw corr 0x2510 = 1" "singleWidth wcw corr 0x2514 = 1"
    "singleWidth wcw corr 0x2518 = 1"
  using assms by (simp_all add: boxGlyphsPlain_def plain_def)




lemma default_boxGlyphsPlain: "boxGlyphsPlain wcwidth DEFAULT_EMOJI_CORRECTIONS"
  by (simp add: boxGlyphsPlain_def plain_def singleWidth_def wcwidth_def wcwidth_cp_def
        DEFAULT_EMOJI_CORRECTIONS_def DEFAULT_EMOJI_CORRECTIONS_entries_def)

lemma createBox_eq:
  assumes "2 \<le> width"
  shows "createBox wcw corr title lines width =
     Inr (projr (titleRow wcw corr title width) @ [0x0A]
          @ concat (map (\<lambda>r. r @ [0x0A])
              (map (\<lambda>l. projr (contentRow wcw corr (width - 4) l)) lines))
          @ projr (bottomRow width))"
  using assms
  by (simp add: createBox_def titleRow_eq appendRows_eq bottomRow_eq comp_def)

text \<open>
  The condition on the first code point of a content line is needed: after the space that
  follows the left border, a leading U+FE0F forms a two-codepoint cluster with that space,
  and the row measures one column more than the six columns of padding plus four columns
  of border and spacing.
\<close>

lemma replicate_6: "replicate 6 x = x # replicate 5 x"
  by (simp add: numeral_eq_Suc)

lemma contentRow_leading_selector:
  "contentRow wcwidth DEFAULT_EMOJI_CORRECTIONS 6 [0xFE0F]
     = Inr ([0x2502, 0x20, 0xFE0F, 0x20] @ replicate 5 0x20 @ [0x20, 0x2502])
   \<and> getVisualWidth wcwidth DEFAULT_EMOJI_CORRECTIONS
        ([0x2502, 0x20, 0xFE0F, 0x20] @ replicate 5 0x20 @ [0x20, 0x2502]) = 11"
proof -
  have g: "getVisualWidth wcwidth DEFAULT_EMOJI_CORRECTIONS [0xFE0F] = 0"
    by (simp add: getVisualWidth_def singleWidth_def wcwidth_def wcwidth_cp_def
          DEFAULT_EMOJI_CORRECTIONS_def DEFAULT_EMOJI_CORRECTIONS_entries_def)
  have 1: "contentRow wcwidth DEFAULT_EMOJI_CORRECTIONS 6 [0xFE0F]
     = Inr ([0x2502, 0x20, 0xFE0F, 0x20] @ replicate 5 0x20 @ [0x20, 0x2502])"
    by (simp add: contentRow_eq padText_left_eq g replicate_6)
  note p = boxGlyphsPlainD[OF default_boxGlyphsPlain]
  have v: "wcwidth [0x20, 0xFE0F] + correctionOr1 DEFAULT_EMOJI_CORRECTIONS [0x20, 0xFE0F] = 2"
    by (simp add: wcwidth_def wcwidth_cp_def correctionOr1_def
          DEFAULT_EMOJI_CORRECTIONS_def DEFAULT_EMOJI_CORRECTIONS_entries_def)
  have r: "getVisualWidth wcwidth DEFAULT_EMOJI_CORRECTIONS
        (0x20 # replicate 5 0x20 @ [0x20, 0x2502]) = 8"
  proof -
    have "getVisualWidth wcwidth DEFAULT_EMOJI_CORRECTIONS (replicate 6 0x20 @ [0x20, 0x2502]) = 8"
      by (subst getVisualWidth_append)
         (simp_all add: getVisualWidth_replicate getVisualWidth_Cons getVisualWidth_Nil p)
    then show ?thesis by (simp add: replicate_6)
  qed
  have "graphemeClusters ([0x2502, 0x20, 0xFE0F, 0x20] @ replicate 5 0x20 @ [0x20, 0x2502])
      = [0x2502] # [0x20, 0xFE0F] # graphemeClusters (0x20 # replicate 5 0x20 @ [0x20, 0x2502])"
    by simp
  then have "getVisualWidth wcwidth DEFAULT_EMOJI_CORRECTIONS
        ([0x2502, 0x20, 0xFE0F, 0x20] @ replicate 5 0x20 @ [0x20, 0x2502]) = 1 + 2 + 8"
    using r p(3) v by (simp add: clusterWidth_def getVisualWidth_clusters)
  with 1 show ?thesis by simp
qed

section \<open>Lines\<close>

lemma split_loop_no_nl:
  "0x0A \<notin> set s \<Longrightarrow> split_loop cur s = [cur @ s]"
  by (induction s arbitrary: cur) auto

lemma split_loop_nl:
  "0x0A \<notin> set a \<Longrightarrow> split_loop cur (a @ 0x0A # b) = (cur @ a) # split_loop [] b"
  by (induction a arbitrary: cur) auto

lemma split_loop_nonempty: "split_loop cur s \<noteq> []"
  by (induction s arbitrary: cur) auto

lemma split_loop_pieces:
  "0x0A \<notin> set cur \<Longrightarrow> l \<in> set (split_loop cur s) \<Longrightarrow> 0x0A \<notin> set l"
proof (induction s arbitrary: cur)
  case Nil then show ?case by simp
next
  case (Cons c cs)
  show ?case
  proof (cases "c = 0x0A")
    case True
    with Cons.prems have "l = cur \<or> l \<in> set (split_loop [] cs)" by simp
    then show ?thesis
    proof
      assume "l = cur" with Cons.prems show ?thesis by simp
    next
      assume "l \<in> set (split_loop [] cs)"
      with Cons.IH[of "[]"] show ?thesis by simp
    qed
  next
    case False
    with Cons.prems have "l \<in> set (split_loop (cur @ [c]) cs)" by simp
    moreover have "0x0A \<notin> set (cur @ [c])" using False Cons.prems by simp
    ultimately show ?thesis by (rule Cons.IH[rotated])
  qed
qed

lemma splitLines_nonempty: "splitLines s \<noteq> []"
  by (simp add: splitLines_def split_loop_nonempty)

lemma splitLines_pieces: "l \<in> set (splitLines s) \<Longrightarrow> 0x0A \<notin> set l"
  unfolding splitLines_def using split_loop_pieces[of "[]" l s] by simp

lemma split_loop_join:
  "\<forall>r \<in> set (x # rows). 0x0A \<notin> set r \<Longrightarrow>
     split_loop cur (join [0x0A] (x # rows)) = (cur @ x) # rows"
proof (induction rows arbitrary: cur x)
  case Nil
  then show ?case by (simp add: split_loop_no_nl)
next
  case (Cons y ys)
  then have "\<forall>r \<in> set (y # ys). 0x0A \<notin> set r" and x: "0x0A \<notin> set x" by simp_all
  then have "split_loop [] (join [0x0A] (y # ys)) = [] @ y # ys" by (simp add: Cons.IH)
  with x show ?case
    using split_loop_nl[of x cur "join [0x0A] (y # ys)"] by simp
qed

lemma splitLines_join:
  assumes "rows \<noteq> []" and "\<forall>r \<in> set rows. 0x0A \<notin> set r"
  shows "splitLines (join [0x0A] rows) = rows"
proof -
  from assms(1) obtain x xs where r: "rows = x # xs" by (cases rows) auto
  with assms(2) have "\<forall>r \<in> set (x # xs). 0x0A \<notin> set r" by simp
  then show ?thesis
    unfolding r splitLines_def by (simp add: split_loop_join)
qed

lemma set_trimEnd: "set (trimEnd s) \<subseteq> set s"
  unfolding trimEnd_def using set_dropWhileD by fastforce

lemma blockLines_length: "length (blockLines box) = length (splitLines box)"
  by (simp add: blockLines_def)

lemma blockLines_no_nl: "l \<in> set (blockLines box) \<Longrightarrow> 0x0A \<notin> set l"
  unfolding blockLines_def using splitLines_pieces set_trimEnd by fastforce

lemma set_join: "set (join sep xs) \<subseteq> set sep \<union> \<Union> (set ` set xs)"
  by (induction sep xs rule: join.induct) auto

section \<open>Maxima\<close>

lemma fold_max_ge: "(a::int) \<le> fold max xs a"
proof (induction xs arbitrary: a)
  case Nil show ?case by simp
next
  case (Cons x xs)
  have "a \<le> max x a" by simp
  also have "\<dots> \<le> fold max xs (max x a)" by (rule Cons)
  finally show ?case by simp
qed

lemma fold_max_elem: "x \<in> set xs \<Longrightarrow> (x::int) \<le> fold max xs a"
proof (induction xs arbitrary: a)
  case Nil then show ?case by simp
next
  case (Cons y ys)
  show ?case
  proof (cases "x = y")
    case True
    have "y \<le> max y a" by simp
    also have "\<dots> \<le> fold max ys (max y a)" by (rule fold_max_ge)
    finally show ?thesis using True by simp
  next
    case False
    with Cons show ?thesis by simp
  qed
qed

lemma fold_max_in: "fold max xs (a::int) = a \<or> fold max xs a \<in> set xs"
proof (induction xs arbitrary: a)
  case Nil show ?case by simp
next
  case (Cons x xs)
  from Cons[of "max x a"] show ?case by (auto simp: max_def split: if_splits)
qed

lemma maxWith0_nonneg: "0 \<le> maxWith0 xs"
  by (simp add: maxWith0_def fold_max_ge)

lemma maxWith0_elem: "x \<in> set xs \<Longrightarrow> x \<le> maxWith0 xs"
  by (simp add: maxWith0_def fold_max_elem)

lemma maxWith0_in: "\<exists>x \<in> set xs. 0 < x \<Longrightarrow> maxWith0 xs \<in> set xs"
  using fold_max_in[of xs 0] fold_max_elem[of _ xs 0] unfolding maxWith0_def
  by (metis linorder_not_less)

lemma blockWidth_nonneg: "0 \<le> blockWidth wcw corr box"
  by (simp add: blockWidth_def maxWith0_nonneg)

section \<open>Characters of a padded string\<close>

lemma set_truncate: "set (truncateByVisualWidth wcw corr t w) \<subseteq> set t"
proof -
  obtain ys where "truncateByVisualWidth wcw corr t w @ ys = t"
    using truncate_prefix by blast
  then show ?thesis by (metis set_append sup_ge1)
qed

lemma set_padText_left:
  "set (projr (padText wcw corr t w AlignLeft)) \<subseteq> insert 0x20 (set t)"
  using set_truncate[of wcw corr t w] by (auto simp: padText_left_eq)

lemma padText_left_empty:
  "0 \<le> w \<Longrightarrow> projr (padText wcw corr [] w AlignLeft) = replicate (nat w) 0x20"
  by (simp add: padText_left_eq getVisualWidth_Nil)

lemma padText_left_projr_width:
  assumes "plain wcw corr 0x20" and "0 \<le> w"
  shows "getVisualWidth wcw corr (projr (padText wcw corr t w AlignLeft)) = w"
  using padText_left_width[OF assms, of t] by auto

section \<open>Horizontal combination\<close>

lemma stringOr_arrayGet_cases:
  "stringOr (arrayGet xs i) [] = [] \<or> stringOr (arrayGet xs i) [] \<in> set xs"
proof (cases "0 \<le> i \<and> i < int (length xs)")
  case True
  then have "nat i < length xs" by linarith
  then have "xs ! nat i \<in> set xs" by (rule nth_mem)
  with True show ?thesis by (simp add: stringOr_def arrayGet_def)
next
  case False
  then show ?thesis by (auto simp: stringOr_def arrayGet_def)
qed

lemma stringOr_arrayGet_out: "i < 0 \<or> int (length xs) \<le> i \<Longrightarrow> stringOr (arrayGet xs i) [] = []"
  by (auto simp: stringOr_def arrayGet_def)

lemma rowParts_eq:
  "rowParts wcw corr boxLines boxWidths i =
     Inr (map (\<lambda>(lines, w). projr (padText wcw corr (stringOr (arrayGet lines i) []) w AlignLeft))
            (zip boxLines boxWidths))"
  unfolding rowParts_def by (rule mapE_Inr) (auto simp: padText_Inr[symmetric])

lemma combineHorizontal_eq:
  assumes "0 \<le> gap"
  shows "combineHorizontal wcw corr boxes gap =
     Inr (join [0x0A]
       (map (\<lambda>i. join (replicate (nat gap) 0x20)
                (projr (rowParts wcw corr (map blockLines boxes)
                          (map (blockWidth wcw corr) boxes) (int i))))
         [0..<nat (maxWith0 (map (\<lambda>box. int (length (splitLines box))) boxes))]))"
proof -
  have bl: "map (\<lambda>box. map trimEnd (splitLines box)) boxes = map blockLines boxes"
    by (simp add: blockLines_def)
  have bw: "map (\<lambda>lines. maxWith0 (map (getVisualWidth wcw corr) lines)) (map blockLines boxes)
      = map (blockWidth wcw corr) boxes"
    by (simp add: blockWidth_def)
  have ml: "map (\<lambda>lines. int (length lines)) (map blockLines boxes)
      = map (\<lambda>box. int (length (splitLines box))) boxes"
    by (simp add: blockLines_def)
  let ?M = "maxWith0 (map (\<lambda>box. int (length (splitLines box))) boxes)"
  let ?row = "\<lambda>i. join (replicate (nat gap) 0x20)
                (projr (rowParts wcw corr (map blockLines boxes)
                          (map (blockWidth wcw corr) boxes) i))"
  have E: "mapE (\<lambda>i. case rowParts wcw corr (map blockLines boxes)
                          (map (blockWidth wcw corr) boxes) i of
                     Inl e \<Rightarrow> Inl e
                   | Inr parts \<Rightarrow> Inr (join (replicate (nat gap) 0x20) parts))
          (map int [0..<nat ?M])
        = Inr (map ?row (map int [0..<nat ?M]))"
    by (rule mapE_Inr) (simp add: rowParts_eq)
  show ?thesis
    unfolding combineHorizontal_def Let_def bl bw ml repeat_single[OF assms] sum.case E
    by (simp add: comp_def)
qed

section \<open>The lines of a box\<close>






lemma replicate_2: "replicate 2 x = [x, x]"
  by (simp add: numeral_2_eq_2)

text \<open>
  The condition that no content line holds a line feed is needed: \<^verbatim>\<open>createBox\<close> copies the
  line as it is, so a line feed inside it cuts one content row into two lines of the
  result, neither of which has the width of the box.
\<close>

lemma replicate_4: "replicate 4 x = [x, x, x, x]"
  by (simp add: numeral_eq_Suc)

lemma replicate_8: "replicate 8 x = [x, x, x, x, x, x, x, x]"
  by (simp add: numeral_eq_Suc)

lemma createBox_line_feed_rows:
  "createBox wcwidth DEFAULT_EMOJI_CORRECTIONS [0x54] [[0x61, 0x0A, 0x62]] 10
     = Inr ([0x250C, 0x2500, 0x20, 0x54, 0x20, 0x2500, 0x2500, 0x2500, 0x2500, 0x2510, 0x0A,
            0x2502, 0x20, 0x61, 0x0A, 0x62, 0x20, 0x20, 0x20, 0x20, 0x20, 0x2502, 0x0A,
            0x2514, 0x2500, 0x2500, 0x2500, 0x2500, 0x2500, 0x2500, 0x2500, 0x2500, 0x2518])
   \<and> splitLines [0x250C, 0x2500, 0x20, 0x54, 0x20, 0x2500, 0x2500, 0x2500, 0x2500, 0x2510, 0x0A,
            0x2502, 0x20, 0x61, 0x0A, 0x62, 0x20, 0x20, 0x20, 0x20, 0x20, 0x2502, 0x0A,
            0x2514, 0x2500, 0x2500, 0x2500, 0x2500, 0x2500, 0x2500, 0x2500, 0x2500, 0x2518]
     = [[0x250C, 0x2500, 0x20, 0x54, 0x20, 0x2500, 0x2500, 0x2500, 0x2500, 0x2510],
        [0x2502, 0x20, 0x61],
        [0x62, 0x20, 0x20, 0x20, 0x20, 0x20, 0x2502],
        [0x2514, 0x2500, 0x2500, 0x2500, 0x2500, 0x2500, 0x2500, 0x2500, 0x2500, 0x2518]]
   \<and> getVisualWidth wcwidth DEFAULT_EMOJI_CORRECTIONS [0x2502, 0x20, 0x61] = 3
   \<and> getVisualWidth wcwidth DEFAULT_EMOJI_CORRECTIONS
        [0x62, 0x20, 0x20, 0x20, 0x20, 0x20, 0x2502] = 7"
proof -
  have t: "getVisualWidth wcwidth DEFAULT_EMOJI_CORRECTIONS [0x54] = 1"
    by (simp add: getVisualWidth_def singleWidth_def wcwidth_def wcwidth_cp_def
          DEFAULT_EMOJI_CORRECTIONS_def DEFAULT_EMOJI_CORRECTIONS_entries_def)
  have l: "getVisualWidth wcwidth DEFAULT_EMOJI_CORRECTIONS [0x61, 0x0A, 0x62] = 2"
    by (simp add: getVisualWidth_def singleWidth_def wcwidth_def wcwidth_cp_def
          DEFAULT_EMOJI_CORRECTIONS_def DEFAULT_EMOJI_CORRECTIONS_entries_def)
  have 1: "createBox wcwidth DEFAULT_EMOJI_CORRECTIONS [0x54] [[0x61, 0x0A, 0x62]] 10
     = Inr ([0x250C, 0x2500, 0x20, 0x54, 0x20, 0x2500, 0x2500, 0x2500, 0x2500, 0x2510, 0x0A,
            0x2502, 0x20, 0x61, 0x0A, 0x62, 0x20, 0x20, 0x20, 0x20, 0x20, 0x2502, 0x0A,
            0x2514, 0x2500, 0x2500, 0x2500, 0x2500, 0x2500, 0x2500, 0x2500, 0x2500, 0x2518])"
    by (simp add: createBox_eq titleRow_eq contentRow_eq padText_left_eq bottomRow_eq t l
          replicate_4 replicate_8)
  have 2: "splitLines [0x250C, 0x2500, 0x20, 0x54, 0x20, 0x2500, 0x2500, 0x2500, 0x2500, 0x2510, 0x0A,
            0x2502, 0x20, 0x61, 0x0A, 0x62, 0x20, 0x20, 0x20, 0x20, 0x20, 0x2502, 0x0A,
            0x2514, 0x2500, 0x2500, 0x2500, 0x2500, 0x2500, 0x2500, 0x2500, 0x2500, 0x2518]
     = [[0x250C, 0x2500, 0x20, 0x54, 0x20, 0x2500, 0x2500, 0x2500, 0x2500, 0x2510],
        [0x2502, 0x20, 0x61],
        [0x62, 0x20, 0x20, 0x20, 0x20, 0x20, 0x2502],
        [0x2514, 0x2500, 0x2500, 0x2500, 0x2500, 0x2500, 0x2500, 0x2500, 0x2500, 0x2518]]"
    by (simp add: splitLines_def)
  have 3: "getVisualWidth wcwidth DEFAULT_EMOJI_CORRECTIONS [0x2502, 0x20, 0x61] = 3"
    by (simp add: getVisualWidth_def singleWidth_def wcwidth_def wcwidth_cp_def
          DEFAULT_EMOJI_CORRECTIONS_def DEFAULT_EMOJI_CORRECTIONS_entries_def)
  have 4: "getVisualWidth wcwidth DEFAULT_EMOJI_CORRECTIONS
        [0x62, 0x20, 0x20, 0x20, 0x20, 0x20, 0x2502] = 7"
    by (simp add: getVisualWidth_def singleWidth_def wcwidth_def wcwidth_cp_def
          DEFAULT_EMOJI_CORRECTIONS_def DEFAULT_EMOJI_CORRECTIONS_entries_def)
  from 1 2 3 4 show ?thesis by blast
qed

section \<open>Instructions that return\<close>

lemma createTableRow_Inr: "\<exists>r. createTableRow wcw corr columns widths = Inr r"
proof -
  have "mapE (\<lambda>(col, i). padText wcw corr col (numberOr (arrayGet widths (int i)) 10) AlignLeft)
          (zip columns [0..<length columns])
      = Inr (map (\<lambda>(col, i). projr (padText wcw corr col
                (numberOr (arrayGet widths (int i)) 10) AlignLeft))
            (zip columns [0..<length columns]))"
    by (rule mapE_Inr) (auto simp: padText_Inr[symmetric])
  then show ?thesis by (simp add: createTableRow_def)
qed

lemma createTableSeparator_Inr:
  assumes "list_all (\<lambda>w. - 2 \<le> w) widths"
  shows "\<exists>r. createTableSeparator widths style = Inr r"
proof -
  have "mapE (\<lambda>w. repeat (line (chars style)) (w + 2)) widths
      = Inr (map (\<lambda>w. concat (replicate (nat (w + 2)) (line (chars style)))) widths)"
    using assms by (intro mapE_Inr) (auto simp: list_all_iff repeat_def)
  then show ?thesis by (simp add: createTableSeparator_def Let_def)
qed

lemma createBox_Inr: "2 \<le> width \<Longrightarrow> \<exists>r. createBox wcw corr title lines width = Inr r"
  by (simp add: createBox_eq)

lemma combineHorizontal_Inr: "0 \<le> gap \<Longrightarrow> \<exists>r. combineHorizontal wcw corr boxes gap = Inr r"
  by (simp add: combineHorizontal_eq)

lemma frame_Inr:
  assumes "2 \<le> a"
  shows "\<exists>r. (case (if t \<noteq> [] then titleRow wcw corr t a
                  else (case repeat [0x2500] (a - 2) of
                          Inl e \<Rightarrow> Inl e
                        | Inr border \<Rightarrow> Inr ([0x250C] @ border @ [0x2510]))) of
               Inl e \<Rightarrow> Inl e
             | Inr topRow \<Rightarrow>
                 (case appendRows wcw corr iw ls (topRow @ [0x0A]) of
                    Inl e \<Rightarrow> Inl e
                  | Inr result \<Rightarrow>
                      (case bottomRow a of
                         Inl e \<Rightarrow> Inl e
                       | Inr bottom \<Rightarrow> Inr (result @ bottom)))) = Inr r"
proof -
  from assms have "0 \<le> a - 2" by simp
  then show ?thesis
    by (simp add: titleRow_eq repeat_single appendRows_eq bottomRow_eq[OF assms])
qed

lemma frame_width_ge: "2 \<le> max w (maxWith0 xs + 4)"
  using maxWith0_nonneg[of xs] by simp

lemma wrapFrame_Inr: "\<exists>r. wrapFrame wcw corr content width title = Inr r"
  unfolding wrapFrame_def Let_def by (rule frame_Inr) (rule frame_width_ge)

lemma padText_Inr_ex: "\<exists>r. padText wcw corr t w a = Inr r"
  using padText_Inr by blast

lemma renderComponent_Inr:
  "countsValid c \<Longrightarrow> \<exists>r. renderComponent wcw corr results c = Inr r"
proof (cases c)
  case (PadTextComponent t w a)
  then show ?thesis by (simp add: padText_Inr_ex)
next
  case (BoxComponent title lines width)
  moreover assume "countsValid c"
  ultimately show ?thesis by (simp add: createBox_Inr)
next
  case (TableRowComponent columns widths)
  then show ?thesis by (simp add: createTableRow_Inr)
next
  case (TableSeparatorComponent widths style)
  moreover assume "countsValid c"
  ultimately show ?thesis by (simp add: createTableSeparator_Inr)
next
  case (CombineHorizontalComponent items gap)
  moreover assume "countsValid c"
  ultimately show ?thesis by (simp add: combineHorizontal_Inr)
next
  case (WrapFrameComponent idx width title)
  then show ?thesis by (simp add: wrapFrame_Inr)
next
  case (RawTextComponent t)
  then show ?thesis by simp
qed

lemma batchRender_loop_Inr:
  assumes "\<forall>c \<in> set components. countsValid c"
  shows "\<exists>rs. batchRender_loop wcw corr components results = Inr (results @ rs)
        \<and> length rs = length components
        \<and> (\<forall>i < length components.
              renderComponent wcw corr (results @ take i rs) (components ! i) = Inr (rs ! i))"
  using assms
proof (induction components arbitrary: results)
  case Nil
  show ?case by simp
next
  case (Cons c cs)
  then have "countsValid c" by simp
  then obtain r where r: "renderComponent wcw corr results c = Inr r"
    using renderComponent_Inr by blast
  from Cons have "\<forall>c \<in> set cs. countsValid c" by simp
  from Cons.IH[OF this, of "results @ [r]"] obtain rs where
    rs: "batchRender_loop wcw corr cs (results @ [r]) = Inr ((results @ [r]) @ rs)"
    and l: "length rs = length cs"
    and n: "\<forall>i < length cs.
        renderComponent wcw corr ((results @ [r]) @ take i rs) (cs ! i) = Inr (rs ! i)"
    by blast
  have "batchRender_loop wcw corr (c # cs) results = Inr (results @ r # rs)"
    using r rs by simp
  moreover have "length (r # rs) = length (c # cs)" using l by simp
  moreover have "\<forall>i < length (c # cs).
      renderComponent wcw corr (results @ take i (r # rs)) ((c # cs) ! i) = Inr ((r # rs) ! i)"
  proof (intro allI impI)
    fix i assume i: "i < length (c # cs)"
    show "renderComponent wcw corr (results @ take i (r # rs)) ((c # cs) ! i) = Inr ((r # rs) ! i)"
    proof (cases i)
      case 0 then show ?thesis using r by simp
    next
      case (Suc k)
      with i have "k < length cs" by simp
      with n have "renderComponent wcw corr ((results @ [r]) @ take k rs) (cs ! k) = Inr (rs ! k)"
        by blast
      with Suc show ?thesis by simp
    qed
  qed
  ultimately show ?case by blast
qed

text \<open>Conversely, an instruction with a negative repeat count throws.\<close>

lemma mapE_Inl:
  "x \<in> set xs \<Longrightarrow> f x = Inl e \<Longrightarrow> \<exists>e'. mapE f xs = Inl e'"
  by (induction xs) (auto split: sum.splits)

lemma renderComponent_RangeError:
  assumes "\<not> countsValid c"
  shows "renderComponent wcw corr results c = Inl RangeError"
proof (cases c)
  case (BoxComponent title lines width)
  with assms have "numberOr width 40 < 2" by simp
  then show ?thesis
    unfolding BoxComponent
    by (simp add: createBox_def titleRow_eq appendRows_eq bottomRow_RangeError)
next
  case (TableSeparatorComponent widths style)
  with assms obtain w where w: "w \<in> set widths" "w < - 2"
    by (auto simp: list_all_iff)
  let ?s = "case style of None \<Rightarrow> StyleMiddle | Some s \<Rightarrow> s"
  have "repeat (line (chars ?s)) (w + 2) = Inl RangeError"
    using w(2) by (simp add: repeat_def)
  with w(1) obtain e where "mapE (\<lambda>w. repeat (line (chars ?s)) (w + 2)) widths = Inl e"
    using mapE_Inl[of w widths "\<lambda>w. repeat (line (chars ?s)) (w + 2)" RangeError] by blast
  moreover have "e = RangeError" by (cases e) simp
  ultimately show ?thesis
    unfolding TableSeparatorComponent by (simp add: createTableSeparator_def Let_def)
next
  case (CombineHorizontalComponent items gap)
  with assms have "numberOr gap 2 < 0" by simp
  then show ?thesis
    unfolding CombineHorizontalComponent
    by (simp add: combineHorizontal_def Let_def repeat_def)
qed (use assms in simp_all)

lemma stringOr_arrayGet_eq:
  "stringOr (arrayGet rs idx) [] = (if 0 \<le> idx \<and> idx < int (length rs) then rs ! nat idx else [])"
  by (simp add: stringOr_def arrayGet_def)

text \<open>
  An instruction that is not valid on its own ends the batch, with or without indices in
  the list: the bottom border of a box of width 1 asks for a repeat count of -1.
\<close>

lemma batchRender_narrow_box_throws:
  "batchRender wcwidth DEFAULT_EMOJI_CORRECTIONS
     [RawTextComponent [0x61], BoxComponent [] [] (Some 1)] = Inl RangeError"
  by (simp add: batchRender_def createBox_def titleRow_eq bottomRow_RangeError numberOr_def)

section \<open>The claims\<close>

text \<open>
  Claim C1, amended. Let a single space be plain. For every string, every target width
  \<open>w \<ge> 0\<close> and every alignment, \<^verbatim>\<open>padText\<close> returns (it never throws) a string of visual
  width exactly \<open>w\<close>, also when the text is wider than \<open>w\<close> and is truncated first,
  provided that for right and centre alignment the text does not begin with the variation
  selector U+FE0F. (A leading selector would join the padding space before it into one
  cluster, which measures one column more; see the counterexample.)
\<close>

theorem padText_visual_width:
  assumes sp: "plain wcw corr 0x20" and w: "0 \<le> w"
    and al: "align = AlignLeft \<or> take 1 t \<noteq> [0xFE0F]"
  shows "\<exists>p. padText wcw corr t w align = Inr p \<and> getVisualWidth wcw corr p = w"
proof (cases "w - getVisualWidth wcw corr t < 0")
  case True
  have "getVisualWidth wcw corr (truncateByVisualWidth wcw corr t w) \<le> w"
    using w by (rule truncate_width_le)
  with True show ?thesis
    by (cases align)
       (simp_all add: padText_left_eq padText_right_eq padText_center_eq
          getVisualWidth_append_spaces sp[unfolded plain_def])
next
  case False
  show ?thesis
  proof (cases align)
    case AlignLeft
    with False show ?thesis by (simp add: padText_left_eq getVisualWidth_append_spaces sp[unfolded plain_def])
  next
    case AlignRight
    with al have "\<not> hasVS16 t" by (cases t) auto
    with AlignRight False show ?thesis
      by (simp add: padText_right_eq getVisualWidth_spaces_append sp[unfolded plain_def])
  next
    case AlignCenter
    with al have nv: "\<not> hasVS16 t" by (cases t) auto
    have "\<not> hasVS16 (t @ replicate k (0x20::nat))" for k
      using nv by (cases t; cases k) auto
    then have W: "getVisualWidth wcw corr (replicate j 0x20 @ t @ replicate k 0x20)
        = int j + getVisualWidth wcw corr t + int k" for j k
      by (simp add: getVisualWidth_spaces_append getVisualWidth_append_spaces sp[unfolded plain_def])
    define p where "p = w - getVisualWidth wcw corr t"
    have p0: "0 \<le> p" using False by (simp add: p_def)
    then have d: "0 \<le> p div 2" "0 \<le> p - p div 2" by presburger+
    have "padText wcw corr t w AlignCenter
        = Inr (replicate (nat (p div 2)) 0x20 @ t @ replicate (nat (p - p div 2)) 0x20)"
      using False by (simp add: padText_center_eq p_def)
    moreover have "getVisualWidth wcw corr
          (replicate (nat (p div 2)) 0x20 @ t @ replicate (nat (p - p div 2)) 0x20) = w"
      unfolding W using d by (simp add: p_def)
    ultimately show ?thesis using AlignCenter by simp
  qed
qed

theorem padText_visual_width_witness:
  "\<exists>p. padText wcwidth DEFAULT_EMOJI_CORRECTIONS [0x54, 0x65, 0x73, 0x74] 10 AlignCenter = Inr p
       \<and> getVisualWidth wcwidth DEFAULT_EMOJI_CORRECTIONS p = 10"
proof -
  have w: "(0::int) \<le> 10" by simp
  have al: "AlignCenter = AlignLeft \<or> take 1 [0x54, 0x65, 0x73, 0x74] \<noteq> [0xFE0F::nat]" by simp
  show ?thesis by (rule padText_visual_width[OF default_space_plain w al])
qed

theorem padText_leading_selector_counterexample:
  "padText wcwidth DEFAULT_EMOJI_CORRECTIONS [0xFE0F] 1 AlignRight = Inr [0x20, 0xFE0F]
   \<and> getVisualWidth wcwidth DEFAULT_EMOJI_CORRECTIONS [0x20, 0xFE0F] = 2"
  by (simp add: padText_right_eq getVisualWidth_def wcwidth_def wcwidth_cp_def
        correctionOr1_def singleWidth_def DEFAULT_EMOJI_CORRECTIONS_def DEFAULT_EMOJI_CORRECTIONS_entries_def)

text \<open>
  Claim C2, amended. \<^verbatim>\<open>getVisualWidth\<close> does not clamp: it adds base width and correction
  of every cluster as they are. Its result is non-negative for every string whenever the
  base width function is non-negative and no table entry is below minus the base width of
  its cluster, in particular for every table without negative corrections.
\<close>

theorem getVisualWidth_nonneg:
  assumes base: "\<forall>k. 0 \<le> wcw k"
    and tab: "\<forall>k v. corr k = Some v \<longrightarrow> 0 \<le> wcw k + v"
  shows "0 \<le> getVisualWidth wcw corr text"
proof -
  have "0 \<le> clusterWidth wcw corr k" for k
  proof -
    have s: "0 \<le> singleWidth wcw corr c" for c
      using base tab by (auto simp: singleWidth_def split: option.splits)
    have m: "0 \<le> wcw k + correctionOr1 corr k"
      using base tab by (auto simp: correctionOr1_def add_nonneg_nonneg split: option.splits)
    show ?thesis using s m by (auto simp: clusterWidth_def split: list.splits)
  qed
  then show ?thesis
    unfolding getVisualWidth_clusters by (intro sum_list_nonneg) auto
qed

theorem getVisualWidth_nonneg_witness:
  "0 \<le> getVisualWidth wcwidth DEFAULT_EMOJI_CORRECTIONS [0x31, 0xFE0F, 0x20E3, 0x2B50, 0x61]"
proof -
  have base: "\<forall>k. 0 \<le> wcwidth k" using wcwidth_nonneg by blast
  have tab: "\<forall>k v. DEFAULT_EMOJI_CORRECTIONS k = Some v \<longrightarrow> 0 \<le> wcwidth k + v"
  proof (intro allI impI)
    fix k v assume "DEFAULT_EMOJI_CORRECTIONS k = Some v"
    then have "v = 1" by (rule default_correction_value)
    with wcwidth_nonneg[of k] show "0 \<le> wcwidth k + v" by simp
  qed
  show ?thesis by (rule getVisualWidth_nonneg[OF base tab])
qed

theorem getVisualWidth_negative_correction_counterexample:
  "getVisualWidth wcwidth (Map.empty([0x61] \<mapsto> -5)) [0x61] = -4"
  by (simp add: getVisualWidth_def wcwidth_def wcwidth_cp_def singleWidth_def)

text \<open>
  Claim C3. On an instruction list that is otherwise valid (none of its instructions
  requests a negative repeat count, \<open>countsValid\<close>), whatever indices its instructions refer
  to, \<^verbatim>\<open>batchRender\<close> returns a result sequence with one result per instruction, and result
  \<open>i\<close> is instruction \<open>i\<close> rendered against the results before it: no instruction is
  skipped. An index of \<^verbatim>\<open>combine_horizontal\<close> or \<^verbatim>\<open>wrap_frame\<close> that is negative or not below
  the number of results produced so far stands for the empty string: the instruction is
  rendered as \<^verbatim>\<open>combineHorizontal\<close> or \<^verbatim>\<open>wrapFrame\<close> of its inputs with the empty string in
  that place.
\<close>

theorem batchRender_lenient_references:
  assumes "\<forall>c \<in> set components. countsValid c"
  shows "(\<exists>results. batchRender wcw corr components = Inr results
          \<and> length results = length components
          \<and> (\<forall>i < length components.
                renderComponent wcw corr (take i results) (components ! i) = Inr (results ! i)))
     \<and> renderComponent wcw corr rs (CombineHorizontalComponent items gap)
         = combineHorizontal wcw corr
             (map (\<lambda>idx. if 0 \<le> idx \<and> idx < int (length rs) then rs ! nat idx else []) items)
             (numberOr gap 2)
     \<and> renderComponent wcw corr rs (WrapFrameComponent contentIndex width title)
         = wrapFrame wcw corr
             (if 0 \<le> contentIndex \<and> contentIndex < int (length rs) then rs ! nat contentIndex else [])
             width title"
proof -
  from batchRender_loop_Inr[OF assms, of wcw corr "[]"]
  have "\<exists>results. batchRender wcw corr components = Inr results
          \<and> length results = length components
          \<and> (\<forall>i < length components.
                renderComponent wcw corr (take i results) (components ! i) = Inr (results ! i))"
    by (simp add: batchRender_def)
  then show ?thesis by (simp add: stringOr_arrayGet_eq)
qed

theorem batchRender_lenient_references_witness:
  "(\<exists>results. batchRender wcwidth DEFAULT_EMOJI_CORRECTIONS
        [RawTextComponent [0x61, 0x62], CombineHorizontalComponent [0, 7] None,
         WrapFrameComponent 9 10 None] = Inr results
      \<and> length results = length [RawTextComponent [0x61, 0x62],
           CombineHorizontalComponent [0, 7] None, WrapFrameComponent 9 10 None])
   \<and> renderComponent wcwidth DEFAULT_EMOJI_CORRECTIONS [[0x61, 0x62]]
        (CombineHorizontalComponent [0, 7] None)
      = combineHorizontal wcwidth DEFAULT_EMOJI_CORRECTIONS [[0x61, 0x62], []] 2
   \<and> renderComponent wcwidth DEFAULT_EMOJI_CORRECTIONS [[0x61, 0x62], [0x63]]
        (WrapFrameComponent 9 10 None)
      = wrapFrame wcwidth DEFAULT_EMOJI_CORRECTIONS [] 10 None"
proof -
  have v: "\<forall>c \<in> set [RawTextComponent [0x61, 0x62], CombineHorizontalComponent [0, 7] None,
         WrapFrameComponent 9 10 None]. countsValid c"
    by (simp add: numberOr_def)
  from batchRender_lenient_references[OF v, of wcwidth DEFAULT_EMOJI_CORRECTIONS]
  show ?thesis by (simp add: numberOr_def stringOr_def arrayGet_def) blast
qed

text \<open>
  Claim C4, amended. For every string \<open>s\<close> and every maximal width \<open>w\<close>, the result of
  \<^verbatim>\<open>truncateByVisualWidth(s, w)\<close> is the concatenation of the first \<open>n\<close> clusters of \<open>s\<close>, for
  some \<open>n\<close>, and is segmented into exactly these clusters again: no two- or
  three-codepoint cluster is split. For \<open>w \<ge> 0\<close> its visual width is at most \<open>w\<close>. (For a
  negative \<open>w\<close> the bound cannot hold of the empty result; see the counterexample.)
\<close>

theorem truncate_whole_clusters_within_width:
  "(0 \<le> w \<longrightarrow> getVisualWidth wcw corr (truncateByVisualWidth wcw corr s w) \<le> w)
   \<and> (\<exists>n. truncateByVisualWidth wcw corr s w = concat (take n (graphemeClusters s))
          \<and> graphemeClusters (truncateByVisualWidth wcw corr s w) = take n (graphemeClusters s))"
proof -
  obtain n where n: "fitClusters (clusterWidth wcw corr) w 0 (graphemeClusters s)
      = take n (graphemeClusters s)"
    using fitClusters_take by blast
  then have "truncateByVisualWidth wcw corr s w = concat (take n (graphemeClusters s))"
    by (simp add: truncateByVisualWidth_clusters)
  moreover from this
  have "graphemeClusters (truncateByVisualWidth wcw corr s w) = take n (graphemeClusters s)"
    by (simp add: graphemeClusters_concat_take)
  ultimately show ?thesis using truncate_width_le[of w wcw corr s] by blast
qed

theorem truncate_whole_clusters_within_width_witness:
  "getVisualWidth wcwidth DEFAULT_EMOJI_CORRECTIONS
      (truncateByVisualWidth wcwidth DEFAULT_EMOJI_CORRECTIONS [0x61, 0x31, 0xFE0F, 0x20E3, 0x62] 2) \<le> 2
   \<and> truncateByVisualWidth wcwidth DEFAULT_EMOJI_CORRECTIONS [0x61, 0x31, 0xFE0F, 0x20E3, 0x62] 2 = [0x61]"
proof -
  have "(0::int) \<le> 2" by simp
  with truncate_whole_clusters_within_width[of 2 wcwidth DEFAULT_EMOJI_CORRECTIONS
      "[0x61, 0x31, 0xFE0F, 0x20E3, 0x62]"]
  have "getVisualWidth wcwidth DEFAULT_EMOJI_CORRECTIONS
      (truncateByVisualWidth wcwidth DEFAULT_EMOJI_CORRECTIONS [0x61, 0x31, 0xFE0F, 0x20E3, 0x62] 2) \<le> 2"
    by blast
  moreover have "truncateByVisualWidth wcwidth DEFAULT_EMOJI_CORRECTIONS
      [0x61, 0x31, 0xFE0F, 0x20E3, 0x62] 2 = [0x61]"
    by (simp add: truncateByVisualWidth_def wcwidth_def wcwidth_cp_def singleWidth_def
          correctionOr1_def DEFAULT_EMOJI_CORRECTIONS_def DEFAULT_EMOJI_CORRECTIONS_entries_def)
  ultimately show ?thesis by blast
qed

theorem truncate_negative_width_counterexample:
  "truncateByVisualWidth wcwidth DEFAULT_EMOJI_CORRECTIONS [0x61] (-1) = []
   \<and> \<not> getVisualWidth wcwidth DEFAULT_EMOJI_CORRECTIONS
          (truncateByVisualWidth wcwidth DEFAULT_EMOJI_CORRECTIONS [0x61] (-1)) \<le> -1"
  by (simp add: truncateByVisualWidth_def getVisualWidth_def wcwidth_def wcwidth_cp_def
        singleWidth_def DEFAULT_EMOJI_CORRECTIONS_def DEFAULT_EMOJI_CORRECTIONS_entries_def)

text \<open>
  Claim C5. The keycap string digit 1, U+FE0F, U+20E3 is one cluster, and with the
  built-in table its visual width is the base width of that whole cluster plus 1,
  whatever the base width function is.
\<close>

theorem keycap_one_cluster:
  "graphemeClusters [0x31, 0xFE0F, 0x20E3] = [[0x31, 0xFE0F, 0x20E3]]
   \<and> getVisualWidth wcw DEFAULT_EMOJI_CORRECTIONS [0x31, 0xFE0F, 0x20E3]
       = wcw [0x31, 0xFE0F, 0x20E3] + 1"
  by (simp add: getVisualWidth_def correctionOr1_def DEFAULT_EMOJI_CORRECTIONS_def DEFAULT_EMOJI_CORRECTIONS_entries_def)







text \<open>
  Claim C8, amended. Let a single space be plain. For every non-empty list of input
  blocks and every gap \<open>\<ge> 0\<close>, \<^verbatim>\<open>combineHorizontal\<close> returns rows joined by line feeds;
  the result has exactly these rows as its lines, and their number is the number of lines
  of the tallest block (no block has more lines, and some block has exactly as many).
  Row \<open>i\<close> is the parts \<^verbatim>\<open>rowParts\<close> of the blocks joined by the gap, one part per block;
  the part of block \<open>j\<close> has the visual width of that block, its own maximal trimmed
  width, in every row, and in a row that the block does not have it consists of that many
  spaces. (A negative gap makes \<^verbatim>\<open>" ".repeat(gap)\<close> throw; see the counterexample.)
\<close>

theorem combineHorizontal_rectangular:
  assumes sp: "plain wcw corr 0x20" and gap: "0 \<le> gap" and ne: "boxes \<noteq> []"
  shows "\<exists>rows.
      combineHorizontal wcw corr boxes gap = Inr (join [0x0A] rows)
    \<and> splitLines (join [0x0A] rows) = rows
    \<and> (\<forall>box \<in> set boxes. length (splitLines box) \<le> length rows)
    \<and> (\<exists>box \<in> set boxes. length (splitLines box) = length rows)
    \<and> (\<forall>i < length rows. \<exists>parts.
          rowParts wcw corr (map blockLines boxes) (map (blockWidth wcw corr) boxes) (int i)
            = Inr parts
        \<and> rows ! i = join (replicate (nat gap) 0x20) parts
        \<and> length parts = length boxes
        \<and> (\<forall>j < length boxes.
              getVisualWidth wcw corr (parts ! j) = blockWidth wcw corr (boxes ! j)
            \<and> (length (splitLines (boxes ! j)) \<le> i
                 \<longrightarrow> parts ! j = replicate (nat (blockWidth wcw corr (boxes ! j))) 0x20)))"
proof -
  let ?counts = "map (\<lambda>box. int (length (splitLines box))) boxes"
  let ?M = "maxWith0 ?counts"
  let ?P = "\<lambda>i. projr (rowParts wcw corr (map blockLines boxes)
                          (map (blockWidth wcw corr) boxes) i)"
  let ?gapStr = "replicate (nat gap) (0x20::nat)"
  let ?rows = "map (\<lambda>i. join ?gapStr (?P (int i))) [0..<nat ?M]"
  have len: "length ?rows = nat ?M" by simp
  have P_eq: "?P i = map (\<lambda>(lines, w).
        projr (padText wcw corr (stringOr (arrayGet lines i) []) w AlignLeft))
        (zip (map blockLines boxes) (map (blockWidth wcw corr) boxes))" for i
    by (simp add: rowParts_eq)
  have P_len: "length (?P i) = length boxes" for i by (simp add: P_eq)
  have P_nth: "?P i ! j = projr (padText wcw corr
        (stringOr (arrayGet (blockLines (boxes ! j)) i) []) (blockWidth wcw corr (boxes ! j))
        AlignLeft)" if "j < length boxes" for i j
    using that by (simp add: P_eq)
  \<comment> \<open>the number of rows is the number of lines of the tallest block\<close>
  have pos: "\<exists>x \<in> set ?counts. 0 < x"
  proof -
    from ne obtain b where "b \<in> set boxes" by (cases boxes) auto
    moreover have "0 < int (length (splitLines b))" using splitLines_nonempty[of b] by simp
    ultimately show ?thesis by auto
  qed
  then have "?M \<in> set ?counts" by (rule maxWith0_in)
  then obtain b where b: "b \<in> set boxes" and bM: "int (length (splitLines b)) = ?M" by auto
  have tall: "\<exists>box \<in> set boxes. length (splitLines box) = length ?rows"
    using b bM unfolding len by (intro bexI[of _ b]) (simp_all add: nat_eq_iff2 flip: bM)
  have le: "\<forall>box \<in> set boxes. length (splitLines box) \<le> length ?rows"
  proof
    fix box assume "box \<in> set boxes"
    then have "int (length (splitLines box)) \<le> ?M" by (intro maxWith0_elem) auto
    then show "length (splitLines box) \<le> length ?rows" unfolding len by simp
  qed
  \<comment> \<open>no row contains a line feed\<close>
  have part_nl: "0x0A \<notin> set p" if "p \<in> set (?P i)" for p i
  proof -
    from that obtain j where j: "j < length boxes" and p: "p = ?P i ! j"
      by (metis P_len in_set_conv_nth)
    let ?l = "stringOr (arrayGet (blockLines (boxes ! j)) i) []"
    have "0x0A \<notin> set ?l"
      using stringOr_arrayGet_cases[of "blockLines (boxes ! j)" i] blockLines_no_nl by auto
    moreover have "set p \<subseteq> insert 0x20 (set ?l)"
      unfolding p P_nth[OF j] by (rule set_padText_left)
    ultimately show ?thesis by auto
  qed
  have row_nl: "\<forall>r \<in> set ?rows. 0x0A \<notin> set r"
  proof
    fix r assume "r \<in> set ?rows"
    then obtain i where r: "r = join ?gapStr (?P (int i))" by auto
    have "set r \<subseteq> set ?gapStr \<union> \<Union> (set ` set (?P (int i)))"
      unfolding r by (rule set_join)
    moreover have "0x0A \<notin> set ?gapStr" by simp
    ultimately show "0x0A \<notin> set r" using part_nl by blast
  qed
  have "?rows \<noteq> []"
  proof -
    from pos obtain x where "x \<in> set ?counts" "0 < x" by blast
    then have "0 < ?M" using maxWith0_elem[of x ?counts] by simp
    then show ?thesis by simp
  qed
  then have split: "splitLines (join [0x0A] ?rows) = ?rows"
    using row_nl by (rule splitLines_join)
  \<comment> \<open>the parts of every row\<close>
  have parts: "\<forall>i < length ?rows. \<exists>parts.
          rowParts wcw corr (map blockLines boxes) (map (blockWidth wcw corr) boxes) (int i)
            = Inr parts
        \<and> ?rows ! i = join ?gapStr parts
        \<and> length parts = length boxes
        \<and> (\<forall>j < length boxes.
              getVisualWidth wcw corr (parts ! j) = blockWidth wcw corr (boxes ! j)
            \<and> (length (splitLines (boxes ! j)) \<le> i
                 \<longrightarrow> parts ! j = replicate (nat (blockWidth wcw corr (boxes ! j))) 0x20))"
  proof (intro allI impI)
    fix i assume i: "i < length ?rows"
    have 1: "rowParts wcw corr (map blockLines boxes) (map (blockWidth wcw corr) boxes) (int i)
        = Inr (?P (int i))" by (simp add: rowParts_eq)
    have 2: "?rows ! i = join ?gapStr (?P (int i))" using i by simp
    have 3: "\<forall>j < length boxes.
              getVisualWidth wcw corr (?P (int i) ! j) = blockWidth wcw corr (boxes ! j)
            \<and> (length (splitLines (boxes ! j)) \<le> i
                 \<longrightarrow> ?P (int i) ! j = replicate (nat (blockWidth wcw corr (boxes ! j))) 0x20)"
    proof (intro allI impI conjI)
      fix j assume j: "j < length boxes"
      show "getVisualWidth wcw corr (?P (int i) ! j) = blockWidth wcw corr (boxes ! j)"
        unfolding P_nth[OF j] by (rule padText_left_projr_width[OF sp blockWidth_nonneg])
      assume "length (splitLines (boxes ! j)) \<le> i"
      then have "stringOr (arrayGet (blockLines (boxes ! j)) (int i)) [] = []"
        by (intro stringOr_arrayGet_out) (simp add: blockLines_length)
      then show "?P (int i) ! j = replicate (nat (blockWidth wcw corr (boxes ! j))) 0x20"
        unfolding P_nth[OF j] by (simp add: padText_left_empty blockWidth_nonneg)
    qed
    from 1 2 3 P_len[of "int i"]
    show "\<exists>parts.
          rowParts wcw corr (map blockLines boxes) (map (blockWidth wcw corr) boxes) (int i)
            = Inr parts
        \<and> ?rows ! i = join ?gapStr parts
        \<and> length parts = length boxes
        \<and> (\<forall>j < length boxes.
              getVisualWidth wcw corr (parts ! j) = blockWidth wcw corr (boxes ! j)
            \<and> (length (splitLines (boxes ! j)) \<le> i
                 \<longrightarrow> parts ! j = replicate (nat (blockWidth wcw corr (boxes ! j))) 0x20))"
      by blast
  qed
  have "combineHorizontal wcw corr boxes gap = Inr (join [0x0A] ?rows)"
    using gap by (rule combineHorizontal_eq)
  with split le tall parts show ?thesis by blast
qed

theorem combineHorizontal_rectangular_witness:
  "\<exists>rows.
      combineHorizontal wcwidth DEFAULT_EMOJI_CORRECTIONS
        [[0x61, 0x0A, 0x62, 0x62], [0x63]] 2 = Inr (join [0x0A] rows)
    \<and> splitLines (join [0x0A] rows) = rows
    \<and> (\<forall>box \<in> set [[0x61, 0x0A, 0x62, 0x62], [0x63]]. length (splitLines box) \<le> length rows)
    \<and> (\<exists>box \<in> set [[0x61, 0x0A, 0x62, 0x62], [0x63]]. length (splitLines box) = length rows)
    \<and> (\<forall>i < length rows. \<exists>parts.
          rowParts wcwidth DEFAULT_EMOJI_CORRECTIONS
            (map blockLines [[0x61, 0x0A, 0x62, 0x62], [0x63]])
            (map (blockWidth wcwidth DEFAULT_EMOJI_CORRECTIONS) [[0x61, 0x0A, 0x62, 0x62], [0x63]])
            (int i) = Inr parts
        \<and> rows ! i = join (replicate (nat 2) 0x20) parts
        \<and> length parts = length [[0x61, 0x0A, 0x62, 0x62], [0x63::nat]]
        \<and> (\<forall>j < length [[0x61, 0x0A, 0x62, 0x62], [0x63::nat]].
              getVisualWidth wcwidth DEFAULT_EMOJI_CORRECTIONS (parts ! j)
                = blockWidth wcwidth DEFAULT_EMOJI_CORRECTIONS
                    ([[0x61, 0x0A, 0x62, 0x62], [0x63]] ! j)
            \<and> (length (splitLines ([[0x61, 0x0A, 0x62, 0x62], [0x63]] ! j)) \<le> i
                 \<longrightarrow> parts ! j = replicate
                       (nat (blockWidth wcwidth DEFAULT_EMOJI_CORRECTIONS
                          ([[0x61, 0x0A, 0x62, 0x62], [0x63]] ! j))) 0x20)))"
proof -
  have g: "(0::int) \<le> 2" by simp
  have n: "[[0x61, 0x0A, 0x62, 0x62], [0x63::nat]] \<noteq> []" by simp
  show ?thesis by (rule combineHorizontal_rectangular[OF default_space_plain g n])
qed

theorem combineHorizontal_negative_gap_counterexample:
  "combineHorizontal wcwidth DEFAULT_EMOJI_CORRECTIONS [[0x61]] (- 1) = Inl RangeError"
  by (simp add: combineHorizontal_def Let_def repeat_def)

text \<open>
  Claim C9, amended. Let a single space be plain. Then for every string \<open>s\<close> and every
  width \<open>w\<close>, also a negative one, padding the left-aligned padding of \<open>s\<close> again gives
  the same string. (With a loaded table that makes the space wider than one column the
  first padding overshoots the width and the second one cuts it; see the counterexample.)
\<close>

theorem padText_left_idempotent:
  assumes sp: "plain wcw corr 0x20"
  shows "\<exists>p. padText wcw corr s w AlignLeft = Inr p \<and> padText wcw corr p w AlignLeft = Inr p"
proof -
  from padText_left_result[OF sp, of s w] obtain p where
    p: "padText wcw corr s w AlignLeft = Inr p"
    and c: "getVisualWidth wcw corr p = w \<or> (p = [] \<and> w < 0)" by blast
  from c have "padText wcw corr p w AlignLeft = Inr p"
  proof
    assume "getVisualWidth wcw corr p = w"
    then show ?thesis by (simp add: padText_left_eq)
  next
    assume "p = [] \<and> w < 0"
    then show ?thesis
      by (simp add: padText_left_eq getVisualWidth_Nil truncateByVisualWidth_def)
  qed
  with p show ?thesis by blast
qed

theorem padText_left_idempotent_witness:
  "\<exists>p. padText wcwidth DEFAULT_EMOJI_CORRECTIONS [0xD55C, 0xAE00, 0x61] 4 AlignLeft = Inr p
       \<and> padText wcwidth DEFAULT_EMOJI_CORRECTIONS p 4 AlignLeft = Inr p"
  by (rule padText_left_idempotent[OF default_space_plain])

theorem padText_wide_space_counterexample:
  "padText wcwidth (Map.empty([0x20] \<mapsto> 1)) [0x61] 3 AlignLeft = Inr [0x61, 0x20, 0x20]
   \<and> padText wcwidth (Map.empty([0x20] \<mapsto> 1)) [0x61, 0x20, 0x20] 3 AlignLeft = Inr [0x61, 0x20]"
proof -
  have a: "getVisualWidth wcwidth (Map.empty([0x20] \<mapsto> 1)) [0x61] = 1"
    by (simp add: getVisualWidth_def singleWidth_def wcwidth_def wcwidth_cp_def)
  have b: "getVisualWidth wcwidth (Map.empty([0x20] \<mapsto> 1)) [0x61, 0x20, 0x20] = 5"
    by (simp add: getVisualWidth_def singleWidth_def wcwidth_def wcwidth_cp_def)
  have c: "truncateByVisualWidth wcwidth (Map.empty([0x20] \<mapsto> 1)) [0x61, 0x20, 0x20] 3
      = [0x61, 0x20]"
    by (simp add: truncateByVisualWidth_def singleWidth_def wcwidth_def wcwidth_cp_def)
  have d: "getVisualWidth wcwidth (Map.empty([0x20] \<mapsto> 1)) [0x61, 0x20] = 3"
    by (simp add: getVisualWidth_def singleWidth_def wcwidth_def wcwidth_cp_def)
  have 1: "padText wcwidth (Map.empty([0x20] \<mapsto> 1)) [0x61] 3 AlignLeft = Inr [0x61, 0x20, 0x20]"
    by (simp add: padText_left_eq a replicate_2)
  have 2: "padText wcwidth (Map.empty([0x20] \<mapsto> 1)) [0x61, 0x20, 0x20] 3 AlignLeft
      = Inr [0x61, 0x20]"
    by (simp add: padText_left_eq b c d)
  from 1 2 show ?thesis by blast
qed

text \<open>
  Claim C10. \<^verbatim>\<open>createTableRow\<close> returns (it never throws) the padded columns joined with
  space, vertical line, space, between a leading vertical line and space and a trailing
  space and vertical line. There is one padded column per column; column \<open>i\<close> is padded
  left-aligned to its declared width \<^verbatim>\<open>widths[i]\<close>, and to 10 when that width is absent
  (the list \<^verbatim>\<open>widths\<close> is shorter) or is 0.
\<close>

theorem createTableRow_pads_columns:
  "\<exists>paddedCols.
     createTableRow wcw corr columns widths
       = Inr ([0x2502, 0x20] @ join [0x20, 0x2502, 0x20] paddedCols @ [0x20, 0x2502])
     \<and> length paddedCols = length columns
     \<and> (\<forall>i < length columns.
          padText wcw corr (columns ! i)
            (if i < length widths \<and> widths ! i \<noteq> 0 then widths ! i else 10) AlignLeft
          = Inr (paddedCols ! i))"
proof -
  let ?f = "\<lambda>(col, i). padText wcw corr col (numberOr (arrayGet widths (int i)) 10) AlignLeft"
  let ?g = "\<lambda>(col, i). projr (padText wcw corr col (numberOr (arrayGet widths (int i)) 10) AlignLeft)"
  let ?xs = "zip columns [0..<length columns]"
  let ?p = "map ?g ?xs"
  have m: "mapE ?f ?xs = Inr ?p"
    by (rule mapE_Inr) (auto simp: padText_Inr[symmetric])
  then have "createTableRow wcw corr columns widths
      = Inr ([0x2502, 0x20] @ join [0x20, 0x2502, 0x20] ?p @ [0x20, 0x2502])"
    by (simp add: createTableRow_def)
  moreover have "length ?p = length columns" by simp
  moreover have "\<forall>i < length columns.
      padText wcw corr (columns ! i)
        (if i < length widths \<and> widths ! i \<noteq> 0 then widths ! i else 10) AlignLeft
      = Inr (?p ! i)"
  proof (intro allI impI)
    fix i assume i: "i < length columns"
    then have "i < length ?xs" by simp
    from mapE_nth[OF m this] i show "padText wcw corr (columns ! i)
        (if i < length widths \<and> widths ! i \<noteq> 0 then widths ! i else 10) AlignLeft
      = Inr (?p ! i)"
      by (simp add: numberOr_arrayGet)
  qed
  ultimately show ?thesis by blast
qed

theorem createTableRow_pads_columns_witness:
  "createTableRow wcwidth DEFAULT_EMOJI_CORRECTIONS [[0x61], [0x62]] [3]
     = Inr ([0x2502, 0x20] @ 0x61 # replicate 2 0x20 @ [0x20, 0x2502, 0x20]
            @ 0x62 # replicate 9 0x20 @ [0x20, 0x2502])"
proof -
  let ?cols = "[[0x61], [0x62]] :: ustring list"
  let ?ws = "[3] :: int list"
  from createTableRow_pads_columns[of wcwidth DEFAULT_EMOJI_CORRECTIONS ?cols ?ws]
  obtain p where r: "createTableRow wcwidth DEFAULT_EMOJI_CORRECTIONS ?cols ?ws
       = Inr ([0x2502, 0x20] @ join [0x20, 0x2502, 0x20] p @ [0x20, 0x2502])"
    and l: "length p = length ?cols"
    and n: "\<forall>i < length ?cols. padText wcwidth DEFAULT_EMOJI_CORRECTIONS (?cols ! i)
            (if i < length ?ws \<and> ?ws ! i \<noteq> 0 then ?ws ! i else 10) AlignLeft = Inr (p ! i)"
    by blast
  have wa: "getVisualWidth wcwidth DEFAULT_EMOJI_CORRECTIONS [0x61] = 1"
    by (simp add: getVisualWidth_def singleWidth_def wcwidth_def wcwidth_cp_def
        DEFAULT_EMOJI_CORRECTIONS_def DEFAULT_EMOJI_CORRECTIONS_entries_def)
  have wb: "getVisualWidth wcwidth DEFAULT_EMOJI_CORRECTIONS [0x62] = 1"
    by (simp add: getVisualWidth_def singleWidth_def wcwidth_def wcwidth_cp_def
        DEFAULT_EMOJI_CORRECTIONS_def DEFAULT_EMOJI_CORRECTIONS_entries_def)
  from n[rule_format, of 0] have p0: "p ! 0 = 0x61 # replicate 2 0x20"
    by (simp add: padText_left_eq wa)
  from n[rule_format, of 1] have p1: "p ! 1 = 0x62 # replicate 9 0x20"
    by (simp add: padText_left_eq wb)
  from l have "p = [p ! 0, p ! 1]"
    by (cases p; cases "tl p") auto
  with p0 p1 have "p = [0x61 # replicate 2 0x20, 0x62 # replicate 9 0x20]"
    by simp
  with r show ?thesis by simp
qed

end
